theory Spec2Isabelle
  imports Complex_Main "HOL-Library.AList"
begin

section \<open>JavaScript values\<close>

text \<open>
  Strings are lists of 8-bit code units. A finite number is represented by its rational
  value; the binary rounding of decimal literals is not modelled. \<open>NaN\<close> and the two
  infinities are values of their own, as \<open>JSON.parse\<close> and \<open>ToNumber\<close> can produce them.
\<close>

datatype jsnumber = Num rat | NaN | PosInf | NegInf

datatype jsval =
    JUndefined
  | JNull
  | JBool bool
  | JNum jsnumber
  | JStr string
  | JArr "jsval list"
  | JObj "(string \<times> jsval) list"

text \<open>The comparison \<open>x < c\<close> of JavaScript for a finite right operand \<open>c\<close>:
  it is false as soon as the left operand is \<open>NaN\<close>.\<close>

fun js_lt :: "jsnumber \<Rightarrow> rat \<Rightarrow> bool" where
  "js_lt (Num x) c = (x < c)"
| "js_lt NaN c = False"
| "js_lt PosInf c = False"
| "js_lt NegInf c = True"

text \<open>\<open>String.prototype.trim\<close>: the white space among the code units below 256 is
  TAB, LF, VT, FF, CR, SPACE and NBSP.\<close>

definition is_js_space :: "char \<Rightarrow> bool" where
  "is_js_space c = ((of_char c :: nat) \<in> {9, 10, 11, 12, 13, 32, 160})"

definition trim :: "string \<Rightarrow> string" where
  "trim s = rev (dropWhile is_js_space (rev (dropWhile is_js_space s)))"

text \<open>\<open>String.prototype.toUpperCase\<close> on the ASCII letters. Code units from 128 on are
  left as they are: JavaScript maps some of them to other characters outside \<open>A-Z\<close>
  (or to the two characters \<open>SS\<close>), which the test \<open>/^[A-Z]$/\<close> rejects just as it
  rejects the unchanged code unit.\<close>

definition upper_char :: "char \<Rightarrow> char" where
  "upper_char c =
     (let n = (of_char c :: nat) in if 97 \<le> n \<and> n \<le> 122 then char_of (n - 32) else c)"

definition toUpperCase :: "string \<Rightarrow> string" where
  "toUpperCase s = map upper_char s"

text \<open>The regular expression \<open>/^[A-Z]$/\<close>: exactly one code unit, in \<open>A\<close> to \<open>Z\<close>.\<close>

fun test_single_AZ :: "string \<Rightarrow> bool" where
  "test_single_AZ [c] = (65 \<le> (of_char c :: nat) \<and> (of_char c :: nat) \<le> 90)"
| "test_single_AZ _ = False"


section \<open>Letter accumulation (server.js)\<close>

record session =
  letters :: "string list"
  recentPredictions :: "string list"
  updatedAt :: nat

type_synonym sessions = "string \<rightharpoonup> session"

definition MIN_CONFIDENCE :: rat where
  "MIN_CONFIDENCE = 7 / 10"

text \<open>\<open>parseInt(process.env.STABILITY_COUNT) || 3\<close>: the argument is the result of
  \<open>parseInt\<close>, \<open>None\<close> standing for \<open>NaN\<close> (also when the variable is not set). Both
  \<open>NaN\<close> and \<open>0\<close> are falsy and replaced by 3; any other integer is kept.\<close>

definition STABILITY_COUNT :: "int option \<Rightarrow> int" where
  "STABILITY_COUNT parsed =
     (case parsed of None \<Rightarrow> 3 | Some n \<Rightarrow> if n = 0 then 3 else n)"

definition normalizeLetter :: "jsval \<Rightarrow> string option" where
  "normalizeLetter letter =
     (case letter of
        JStr s \<Rightarrow>
          if s = [] then None
          else (let upper = toUpperCase (trim s)
                in if \<not> test_single_AZ upper then None else Some upper)
      | _ \<Rightarrow> None)"

record accumulation =
  sessionId :: string
  lettersOut :: "string list"
  accumulatedText :: string
  accepted :: bool
  reason :: "string option"
  acceptedLetter :: "string option"
  stabilityProgress :: "nat option"
  stabilityRequired :: "int option"

text \<open>The first statement of \<open>accumulateLetter\<close>: a session that does not exist yet is
  created empty, stamped with the current time.\<close>

definition ensureSession :: "sessions \<Rightarrow> string \<Rightarrow> nat \<Rightarrow> sessions" where
  "ensureSession store sid now =
     (case store sid of
        None \<Rightarrow> store(sid \<mapsto> \<lparr>letters = [], recentPredictions = [], updatedAt = now\<rparr>)
      | Some _ \<Rightarrow> store)"

text \<open>\<open>push\<close> followed by a single \<open>shift\<close> when the array has grown beyond the
  threshold.\<close>

definition pushRecent :: "int \<Rightarrow> string list \<Rightarrow> string \<Rightarrow> string list" where
  "pushRecent count recent cleanLetter =
     (let pushed = recent @ [cleanLetter]
      in if int (length pushed) > count then tl pushed else pushed)"

text \<open>\<open>session.letters[session.letters.length - 1] !== cleanLetter\<close>; the read of an
  empty array gives \<open>undefined\<close>, which differs from every string.\<close>

definition lastLetterDiffers :: "string list \<Rightarrow> string \<Rightarrow> bool" where
  "lastLetterDiffers ls cleanLetter = (ls = [] \<or> last ls \<noteq> cleanLetter)"

definition rejected :: "string \<Rightarrow> session \<Rightarrow> string \<Rightarrow> accumulation" where
  "rejected sid s why =
     \<lparr>sessionId = sid, lettersOut = letters s, accumulatedText = concat (letters s),
      accepted = False, reason = Some why, acceptedLetter = None,
      stabilityProgress = None, stabilityRequired = None\<rparr>"

text \<open>\<open>accumulateLetter(letter, confidence, sessionId)\<close>. The arguments \<open>count\<close> and
  \<open>now\<close> are the module constant \<open>STABILITY_COUNT\<close> and the value of \<open>Date.now()\<close>;
  \<open>confidence\<close> is the number that the comparison with \<open>MIN_CONFIDENCE\<close> converts its
  operand to. The two reads of the clock in one call, at the creation of the session and
  at the commit, give the same \<open>now\<close>. The result is the returned object and the store
  after the call.\<close>

definition accumulateLetter ::
  "int \<Rightarrow> nat \<Rightarrow> jsval \<Rightarrow> jsnumber \<Rightarrow> string \<Rightarrow> sessions \<Rightarrow> accumulation \<times> sessions" where
  "accumulateLetter count now letter confidence sid store0 =
     (let store = ensureSession store0 sid now;
          s = the (store sid)
      in if js_lt confidence MIN_CONFIDENCE then (rejected sid s ''low_confidence'', store)
         else case normalizeLetter letter of
           None \<Rightarrow> (rejected sid s ''invalid_letter'', store)
         | Some cleanLetter \<Rightarrow>
             (let s1 = s\<lparr>recentPredictions := pushRecent count (recentPredictions s) cleanLetter\<rparr>
              in if int (length (recentPredictions s1)) < count then
                   ((rejected sid s1 ''insufficient_stability'')
                      \<lparr>stabilityProgress := Some (length (recentPredictions s1)),
                       stabilityRequired := Some count\<rparr>,
                    store(sid \<mapsto> s1))
                 else if \<not> list_all (\<lambda>p. p = cleanLetter) (recentPredictions s1) then
                   (rejected sid s1 ''unstable'', store(sid \<mapsto> s1))
                 else
                   (let s2 = (if lastLetterDiffers (letters s1) cleanLetter
                              then s1\<lparr>letters := letters s1 @ [cleanLetter],
                                      updatedAt := now, recentPredictions := []\<rparr>
                              else s1)
                    in (\<lparr>sessionId = sid, lettersOut = letters s2,
                         accumulatedText = concat (letters s2), accepted = True,
                         reason = None, acceptedLetter = Some cleanLetter,
                         stabilityProgress = None, stabilityRequired = None\<rparr>,
                        store(sid \<mapsto> s2)))))"

text \<open>A sequence of calls, made in order, each with the time of the call and its session
  identifier: the returned objects, oldest first, and the store at the end.\<close>

fun accumulateAll ::
  "int \<Rightarrow> (nat \<times> jsval \<times> jsnumber \<times> string) list \<Rightarrow> sessions \<Rightarrow> accumulation list \<times> sessions" where
  "accumulateAll count [] store = ([], store)"
| "accumulateAll count ((now, letter, confidence, sid) # frames) store =
     (let (r, store1) = accumulateLetter count now letter confidence sid store;
          (rs, store2) = accumulateAll count frames store1
      in (r # rs, store2))"

text \<open>The letters and the recent window that a call for \<open>sid\<close> works on: those of the
  stored session, or the empty ones of the session that the call creates.\<close>

definition lettersOf :: "sessions \<Rightarrow> string \<Rightarrow> string list" where
  "lettersOf store sid = (case store sid of None \<Rightarrow> [] | Some s \<Rightarrow> letters s)"

definition windowOf :: "sessions \<Rightarrow> string \<Rightarrow> string list" where
  "windowOf store sid = (case store sid of None \<Rightarrow> [] | Some s \<Rightarrow> recentPredictions s)"

text \<open>A frame that passes the confidence gate and the validity gate with the clean
  letter \<open>c\<close>, addressed to the session \<open>sid\<close>.\<close>

definition validFrame :: "string \<Rightarrow> string \<Rightarrow> nat \<times> jsval \<times> jsnumber \<times> string \<Rightarrow> bool" where
  "validFrame sid c frame =
     (case frame of (now, letter, confidence, sid') \<Rightarrow>
        sid' = sid \<and> \<not> js_lt confidence MIN_CONFIDENCE \<and> normalizeLetter letter = Some c)"

text \<open>The scenario of seven frames, the frame \<open>k\<close> arriving at the time \<open>t k\<close>.\<close>

definition scenario :: "(nat \<Rightarrow> nat) \<Rightarrow> string \<Rightarrow> (nat \<times> jsval \<times> jsnumber \<times> string) list" where
  "scenario t sid =
     [(t 1, JStr ''H'', Num (9 / 10), sid), (t 2, JStr ''H'', Num (9 / 10), sid),
      (t 3, JStr ''H'', Num (9 / 10), sid), (t 4, JStr ''E'', Num (6 / 10), sid),
      (t 5, JStr ''E'', Num (92 / 100), sid), (t 6, JStr ''E'', Num (92 / 100), sid),
      (t 7, JStr ''E'', Num (92 / 100), sid)]"


text \<open>Two predicates used in the proofs below: every window of the store is within the
  threshold; and the window consists of some entries \<open>v\<close> not ending in \<open>c\<close>, followed by
  \<open>k\<close> copies of \<open>c\<close>, the shape it has while a run of \<open>c\<close> is building up.\<close>

definition windowsBounded :: "int \<Rightarrow> sessions \<Rightarrow> bool" where
  "windowsBounded count store = (\<forall>sid. int (length (windowOf store sid)) \<le> count)"

definition runShape :: "int \<Rightarrow> string \<Rightarrow> nat \<Rightarrow> string list \<Rightarrow> bool" where
  "runShape count c k w =
     (int (length w) \<le> count \<and> (\<exists>v. w = v @ replicate k c \<and> (v \<noteq> [] \<longrightarrow> last v \<noteq> c)))"

text \<open>Test data: \<open>n\<close> frames with the label H and the confidence 0.9 for the session \<open>sid\<close>,
  and a session that has committed H and holds two H in its window.\<close>

definition framesH :: "nat \<Rightarrow> string \<Rightarrow> (nat \<times> jsval \<times> jsnumber \<times> string) list" where
  "framesH n sid = replicate n (0, JStr ''H'', Num (9 / 10), sid)"

definition heldH :: sessions where
  "heldH = [''s'' \<mapsto> \<lparr>letters = [''H''], recentPredictions = [''H'', ''H''], updatedAt = 0\<rparr>]"


section \<open>The hand-off to sentence formation and the clearing of sessions (server.js)\<close>

text \<open>An \<open>async\<close> handler runs up to its \<open>await\<close> in one step and from the answer of the
  awaited call to its end in a later step; other handlers may run in between. The handler
  of \<open>/api/send-to-gemini\<close> is therefore two functions: the part before
  \<open>await model.generateContent(prompt)\<close> and the part after it.\<close>

datatype response =
    Sentence string string
  | Status400 string
  | Status500 string string
  | Accumulated accumulation
  | Cleared string

text \<open>Before the \<open>await\<close>: \<open>text?.trim() || session?.letters?.join("")\<close>, the test for
  an empty text, and the trimmed text that goes into the prompt. A \<open>text\<close> that is neither
  a string nor null or undefined has no method \<open>trim\<close>; the \<open>TypeError\<close> is caught and
  answered with the status 500. Nothing is written to the store.\<close>

definition sendToGemini_start :: "sessions \<Rightarrow> string \<Rightarrow> jsval \<Rightarrow> response + string" where
  "sendToGemini_start store sid text =
     (let fromSession = (case store sid of None \<Rightarrow> None | Some s \<Rightarrow> Some (concat (letters s)));
          pick = (\<lambda>explicit. if explicit \<noteq> [] then Some explicit else fromSession);
          continue = (\<lambda>chosen. case chosen of
              None \<Rightarrow> Inl (Status400 ''No accumulated text found for this session.'')
            | Some found \<Rightarrow>
                if found = []
                then Inl (Status400 ''No accumulated text found for this session.'')
                else Inr (trim found))
      in case text of
           JUndefined \<Rightarrow> continue fromSession
         | JNull \<Rightarrow> continue fromSession
         | JStr s \<Rightarrow> continue (pick (trim s))
         | _ \<Rightarrow> Inl (Status500 ''Failed to generate sentence'' ''text?.trim is not a function''))"

text \<open>After the \<open>await\<close>: \<open>outcome\<close> is \<open>Inl\<close> when \<open>generateContent\<close> rejects or
  \<open>result.response.text()\<close> throws, and \<open>Inr\<close> the text otherwise. \<open>store\<close> is the store
  at the time the handler resumes.\<close>

definition sendToGemini_resume ::
  "sessions \<Rightarrow> string \<Rightarrow> string \<Rightarrow> string + string \<Rightarrow> response \<times> sessions" where
  "sendToGemini_resume store sid sanitized outcome =
     (case outcome of
        Inl message \<Rightarrow> (Status500 ''Failed to generate sentence'' message, store)
      | Inr generated \<Rightarrow>
          (Sentence (trim generated) sanitized,
           if store sid \<noteq> None then store(sid := None) else store))"

definition clearSession :: "sessions \<Rightarrow> string \<Rightarrow> response \<times> sessions" where
  "clearSession store sid = (Cleared sid, if store sid \<noteq> None then store(sid := None) else store)"

text \<open>The server between two steps: the store, and the handlers of
  \<open>/api/send-to-gemini\<close> that are suspended at their \<open>await\<close>, each with the session
  identifier and the text it holds in its local variables.\<close>

record server =
  letterSessions :: sessions
  awaiting :: "(string \<times> string) list"

text \<open>One step of the server: a classification has arrived and its handler calls
  \<open>accumulateLetter\<close>; a request to \<open>/api/send-to-gemini\<close> arrives; the awaited call of
  the \<open>k\<close>-th suspended handler is answered; a request to \<open>/api/clear-session\<close> arrives.\<close>

datatype event =
    FrameClassified nat jsval jsnumber string
  | SendToGemini string jsval
  | GeminiSettled nat "string + string"
  | ClearSession string

fun serverStep :: "int \<Rightarrow> server \<Rightarrow> event \<Rightarrow> response option \<times> server" where
  "serverStep count srv (FrameClassified now letter confidence sid) =
     (let (r, store) = accumulateLetter count now letter confidence sid (letterSessions srv)
      in (Some (Accumulated r), srv\<lparr>letterSessions := store\<rparr>))"
| "serverStep count srv (SendToGemini sid text) =
     (case sendToGemini_start (letterSessions srv) sid text of
        Inl r \<Rightarrow> (Some r, srv)
      | Inr sanitized \<Rightarrow> (None, srv\<lparr>awaiting := awaiting srv @ [(sid, sanitized)]\<rparr>))"
| "serverStep count srv (GeminiSettled k outcome) =
     (if k < length (awaiting srv) then
        (let (sid, sanitized) = awaiting srv ! k;
             (r, store) = sendToGemini_resume (letterSessions srv) sid sanitized outcome
         in (Some r, srv\<lparr>letterSessions := store,
                          awaiting := take k (awaiting srv) @ drop (Suc k) (awaiting srv)\<rparr>))
      else (None, srv))"
| "serverStep count srv (ClearSession sid) =
     (let (r, store) = clearSession (letterSessions srv) sid
      in (Some r, srv\<lparr>letterSessions := store\<rparr>))"

fun serverRun :: "int \<Rightarrow> server \<Rightarrow> event list \<Rightarrow> response option list \<times> server" where
  "serverRun count srv [] = ([], srv)"
| "serverRun count srv (e # es) =
     (let (r, srv1) = serverStep count srv e;
          (rs, srv2) = serverRun count srv1 es
      in (r # rs, srv2))"

text \<open>Test data: a session that has committed H; a request to send it; three frames E that
  arrive while the request is suspended; the answer of the sentence service.\<close>

definition committedH :: server where
  "committedH = \<lparr>letterSessions = [''s'' \<mapsto> \<lparr>letters = [''H''], recentPredictions = [], updatedAt = 0\<rparr>],
                  awaiting = []\<rparr>"

definition overlappingEvents :: "event list" where
  "overlappingEvents =
     [SendToGemini ''s'' JUndefined,
      FrameClassified 1 (JStr ''E'') (Num (9 / 10)) ''s'',
      FrameClassified 2 (JStr ''E'') (Num (9 / 10)) ''s'',
      FrameClassified 3 (JStr ''E'') (Num (9 / 10)) ''s'',
      GeminiSettled 0 (Inr ''Hi.'')]"


section \<open>The bridge to the classifier process (letterClassifier.js)\<close>

definition REQUEST_TIMEOUT_MS :: nat where
  "REQUEST_TIMEOUT_MS = 12000"

datatype jserror = Error jsval

datatype settlement = Resolved jsval jsval | Rejected jserror

datatype logEntry =
    LogParseFailure string
  | LogStderr string
  | LogExit jsval jsval

record proc =
  pid :: nat
  killed :: bool

text \<open>An entry of \<open>pendingRequests\<close>: \<open>resolve\<close> and \<open>reject\<close> are the two functions of
  one promise, \<open>timeout\<close> is the handle of the timer.\<close>

record pendingEntry =
  promise :: nat
  timeout :: nat

text \<open>An armed timer: the request identifier and the promise that its callback holds, and
  the delay it was armed with.\<close>

record timer =
  timerRequestId :: string
  timerPromise :: nat
  timerDelay :: nat

text \<open>The module variables, and what the runtime holds for them: the promises that have
  been settled, the armed timers, the counters that give fresh promises, timers and
  processes, the lines written to the standard input of each process, the processes whose
  input was ended and those that were sent the kill signal, and the console.
  \<open>pendingRequests\<close> is a JavaScript \<open>Map\<close>, which keeps its keys in insertion order.\<close>

record classifier =
  pythonProcess :: "proc option"
  stdoutInterface :: "nat option"
  requestCounter :: nat
  pendingRequests :: "(string \<times> pendingEntry) list"
  settled :: "nat \<rightharpoonup> settlement"
  timers :: "nat \<rightharpoonup> timer"
  promiseCount :: nat
  timerCount :: nat
  spawned :: nat
  stdinLines :: "(nat \<times> string \<times> jsval) list"
  stdinEnded :: "nat list"
  signalled :: "nat list"
  console :: "logEntry list"

definition initialClassifier :: classifier where
  "initialClassifier =
     \<lparr>pythonProcess = None, stdoutInterface = None, requestCounter = 0, pendingRequests = [],
      settled = Map.empty, timers = Map.empty, promiseCount = 0, timerCount = 0, spawned = 0,
      stdinLines = [], stdinEnded = [], signalled = [], console = []\<rparr>"

text \<open>Settling a promise has an effect only the first time.\<close>

definition settle :: "nat \<Rightarrow> settlement \<Rightarrow> classifier \<Rightarrow> classifier" where
  "settle p outcome st =
     (case settled st p of
        None \<Rightarrow> st\<lparr>settled := (settled st)(p \<mapsto> outcome)\<rparr>
      | Some _ \<Rightarrow> st)"

definition clearTimeout :: "nat \<Rightarrow> classifier \<Rightarrow> classifier" where
  "clearTimeout t st = st\<lparr>timers := (timers st)(t := None)\<rparr>"

text \<open>The decimal digits of a number, as the template literal prints it.\<close>

function showNat :: "nat \<Rightarrow> string" where
  "showNat n =
     (if n < 10 then [char_of (48 + n)]
      else showNat (n div 10) @ [char_of (48 + n mod 10)])"
  by pat_completeness auto
termination
  by (relation "measure id") auto

declare showNat.simps [simp del]

definition makeRequestId :: "nat \<Rightarrow> nat \<Rightarrow> string" where
  "makeRequestId now counter = ''req_'' @ showNat now @ ''_'' @ showNat counter"

definition startWorker :: "classifier \<Rightarrow> classifier" where
  "startWorker st =
     (case pythonProcess st of
        Some _ \<Rightarrow> st
      | None \<Rightarrow> st\<lparr>pythonProcess := Some \<lparr>pid = spawned st, killed = False\<rparr>,
                    stdoutInterface := Some (spawned st),
                    spawned := Suc (spawned st)\<rparr>)"

definition cleanupWorker :: "classifier \<Rightarrow> classifier" where
  "cleanupWorker st =
     (let st1 = (case stdoutInterface st of
                   Some _ \<Rightarrow> st\<lparr>stdoutInterface := None\<rparr>
                 | None \<Rightarrow> st)
      in case pythonProcess st1 of
           None \<Rightarrow> st1
         | Some p \<Rightarrow>
             (let st2 = st1\<lparr>stdinEnded := stdinEnded st1 @ [pid p]\<rparr>;
                  st3 = (if \<not> killed p then st2\<lparr>signalled := signalled st2 @ [pid p]\<rparr> else st2)
              in st3\<lparr>pythonProcess := None\<rparr>))"

definition ensureWorker :: "classifier \<Rightarrow> classifier" where
  "ensureWorker st = (if pythonProcess st = None then startWorker st else st)"

definition stopClassifier :: "classifier \<Rightarrow> classifier" where
  "stopClassifier st = cleanupWorker st"

text \<open>\<open>classifyLetterFromBase64\<close>: \<open>now\<close> is the value of \<open>Date.now()\<close>, \<open>writeThrows\<close> the
  error that \<open>stdin.write\<close> throws, if it throws. The function throws when no usable
  process is there (\<open>Inl\<close>), and returns a new promise otherwise.\<close>

definition classifyLetterFromBase64 ::
  "jsval \<Rightarrow> nat \<Rightarrow> jserror option \<Rightarrow> classifier \<Rightarrow> (jserror + nat) \<times> classifier" where
  "classifyLetterFromBase64 imageBase64 now writeThrows st0 =
     (let st = ensureWorker st0
      in case pythonProcess st of
           None \<Rightarrow> (Inl (Error (JStr ''Classifier worker is not available'')), st)
         | Some p \<Rightarrow>
             if killed p then (Inl (Error (JStr ''Classifier worker is not available'')), st)
             else
               (let counter = Suc (requestCounter st);
                    requestId = makeRequestId now counter;
                    pr = promiseCount st;
                    t = timerCount st;
                    st1 = st\<lparr>requestCounter := counter,
                             promiseCount := Suc pr,
                             timerCount := Suc t,
                             timers := (timers st)(t \<mapsto>
                               \<lparr>timerRequestId = requestId, timerPromise = pr,
                                timerDelay = REQUEST_TIMEOUT_MS\<rparr>),
                             pendingRequests :=
                               AList.update requestId \<lparr>promise = pr, timeout = t\<rparr>
                                 (pendingRequests st)\<rparr>
                in case writeThrows of
                     None \<Rightarrow>
                       (Inr pr, st1\<lparr>stdinLines := stdinLines st1 @ [(pid p, requestId, imageBase64)]\<rparr>)
                   | Some e \<Rightarrow>
                       (Inr pr,
                        settle pr (Rejected e)
                          ((clearTimeout t st1)
                             \<lparr>pendingRequests := AList.delete requestId (pendingRequests st1)\<rparr>))))"

text \<open>The callback of the timer \<open>t\<close>. A timer that was cleared, or that has fired, does
  not fire.\<close>

definition onTimeout :: "nat \<Rightarrow> classifier \<Rightarrow> classifier" where
  "onTimeout t st =
     (case timers st t of
        None \<Rightarrow> st
      | Some tm \<Rightarrow>
          (let st1 = st\<lparr>timers := (timers st)(t := None)\<rparr>
           in if map_of (pendingRequests st1) (timerRequestId tm) \<noteq> None then
                settle (timerPromise tm) (Rejected (Error (JStr ''Classifier request timed out'')))
                  (st1\<lparr>pendingRequests := AList.delete (timerRequestId tm) (pendingRequests st1)\<rparr>)
              else st1))"

text \<open>Truthiness, and the read of a property of a value that is neither null nor
  undefined. None of the four properties that the code reads exists on a number, a
  boolean, a string or an array.\<close>

fun truthy :: "jsval \<Rightarrow> bool" where
  "truthy JUndefined = False"
| "truthy JNull = False"
| "truthy (JBool b) = b"
| "truthy (JNum (Num x)) = (x \<noteq> 0)"
| "truthy (JNum NaN) = False"
| "truthy (JNum _) = True"
| "truthy (JStr s) = (s \<noteq> [])"
| "truthy _ = True"

fun getProp :: "jsval \<Rightarrow> string \<Rightarrow> jsval" where
  "getProp (JObj props) name = (case map_of props name of None \<Rightarrow> JUndefined | Some v \<Rightarrow> v)"
| "getProp _ name = JUndefined"

text \<open>\<open>pendingRequests.has(id)\<close> and \<open>get(id)\<close>: the keys are strings, so only a string
  finds an entry.\<close>

fun getPending :: "(string \<times> pendingEntry) list \<Rightarrow> jsval \<Rightarrow> (string \<times> pendingEntry) option" where
  "getPending pending (JStr key) = map_option (Pair key) (map_of pending key)"
| "getPending pending _ = None"

datatype uncaught = TypeError

text \<open>The listener of the \<open>line\<close> event. \<open>JSON_parse\<close> is \<open>JSON.parse\<close>, \<open>None\<close> where it
  throws. The destructuring \<open>const { id } = payload\<close> of \<open>null\<close> throws a \<open>TypeError\<close>
  that nothing catches (\<open>Inl\<close>).\<close>

definition onLine ::
  "(string \<Rightarrow> jsval option) \<Rightarrow> string \<Rightarrow> classifier \<Rightarrow> uncaught + classifier" where
  "onLine JSON_parse line st =
     (if trim line = [] then Inr st
      else case JSON_parse line of
        None \<Rightarrow> Inr (st\<lparr>console := console st @ [LogParseFailure line]\<rparr>)
      | Some payload \<Rightarrow>
          (if payload = JNull \<or> payload = JUndefined then Inl TypeError
           else (case getPending (pendingRequests st) (getProp payload ''id'') of
             None \<Rightarrow> Inr st
           | Some (key, entry) \<Rightarrow>
               (let st1 = clearTimeout (timeout entry) st;
                    st2 = st1\<lparr>pendingRequests := AList.delete key (pendingRequests st1)\<rparr>
                in if truthy (getProp payload ''error'')
                   then Inr (settle (promise entry) (Rejected (Error (getProp payload ''error''))) st2)
                   else Inr (settle (promise entry)
                          (Resolved (getProp payload ''letter'') (getProp payload ''confidence''))
                          st2)))))"

definition onStderr :: "string \<Rightarrow> classifier \<Rightarrow> classifier" where
  "onStderr message st = st\<lparr>console := console st @ [LogStderr (trim message)]\<rparr>"

text \<open>The listener of the \<open>exit\<close> event of a process.\<close>

definition rejectAll :: "(string \<times> pendingEntry) list \<Rightarrow> classifier \<Rightarrow> classifier" where
  "rejectAll entries st =
     fold (\<lambda>(key, entry) s.
             settle (promise entry)
               (Rejected (Error (JStr ''Classifier worker exited unexpectedly'')))
               (clearTimeout (timeout entry) s))
          entries st"

definition onExit :: "jsval \<Rightarrow> jsval \<Rightarrow> classifier \<Rightarrow> classifier" where
  "onExit code signal st =
     (let st1 = st\<lparr>console := console st @ [LogExit code signal]\<rparr>;
          st2 = cleanupWorker st1;
          st3 = rejectAll (pendingRequests st2) st2
      in st3\<lparr>pendingRequests := []\<rparr>)"

text \<open>What can happen to the bridge, and a run of it. \<open>Classify\<close> is a call from a request
  handler; the other four come from the process, the timers and the shutdown hooks.\<close>

datatype bridgeEvent =
    Classify jsval nat "jserror option"
  | Line string
  | TimerFires nat
  | Exit jsval jsval
  | Stop

fun bridgeStep ::
  "(string \<Rightarrow> jsval option) \<Rightarrow> classifier \<Rightarrow> bridgeEvent \<Rightarrow> uncaught + classifier" where
  "bridgeStep JSON_parse st (Classify imageBase64 now writeThrows) =
     Inr (snd (classifyLetterFromBase64 imageBase64 now writeThrows st))"
| "bridgeStep JSON_parse st (Line line) = onLine JSON_parse line st"
| "bridgeStep JSON_parse st (TimerFires t) = Inr (onTimeout t st)"
| "bridgeStep JSON_parse st (Exit code signal) = Inr (onExit code signal st)"
| "bridgeStep JSON_parse st Stop = Inr (stopClassifier st)"

fun bridgeRun ::
  "(string \<Rightarrow> jsval option) \<Rightarrow> classifier \<Rightarrow> bridgeEvent list \<Rightarrow> uncaught + classifier" where
  "bridgeRun JSON_parse st [] = Inr st"
| "bridgeRun JSON_parse st (e # es) =
     (case bridgeStep JSON_parse st e of
        Inl err \<Rightarrow> Inl err
      | Inr st1 \<Rightarrow> bridgeRun JSON_parse st1 es)"


text \<open>Test data: three requests pending at the first process; one request pending; an answer
  for the request \<open>rid\<close>; a parser that fails on every line.\<close>

definition threePending :: classifier where
  "threePending =
     snd (classifyLetterFromBase64 (JStr ''c'') 6 None
       (snd (classifyLetterFromBase64 (JStr ''b'') 5 None
         (snd (classifyLetterFromBase64 (JStr ''a'') 5 None initialClassifier)))))"

definition onePending :: classifier where
  "onePending = snd (classifyLetterFromBase64 (JStr ''a'') 5 None initialClassifier)"

definition answerFor :: "string \<Rightarrow> jsval" where
  "answerFor rid = JObj [(''id'', JStr rid), (''letter'', JStr ''H''), (''confidence'', JNum (Num (9 / 10)))]"

definition parseFails :: "string \<Rightarrow> jsval option" where
  "parseFails line = None"


section \<open>Properties of the letter accumulation\<close>

lemma normalizeLetter_H: "normalizeLetter (JStr ''H'') = Some ''H''"
  by code_simp

lemma normalizeLetter_E: "normalizeLetter (JStr ''E'') = Some ''E''"
  by code_simp

lemma ensureSession_same:
  "ensureSession store sid now sid \<noteq> None"
  "lettersOf (ensureSession store sid now) sid' = lettersOf store sid'"
  "windowOf (ensureSession store sid now) sid' = windowOf store sid'"
  "letters (the (ensureSession store sid now sid)) = lettersOf store sid"
  "recentPredictions (the (ensureSession store sid now sid)) = windowOf store sid"
  by (auto simp: ensureSession_def lettersOf_def windowOf_def split: option.splits)

lemma ensureSession_present: "store sid = Some s \<Longrightarrow> ensureSession store sid now = store"
  by (simp add: ensureSession_def)

lemma accumulate_low:
  assumes "js_lt confidence MIN_CONFIDENCE"
  shows "accumulateLetter count now letter confidence sid store =
           (rejected sid (the (ensureSession store sid now sid)) ''low_confidence'',
            ensureSession store sid now)"
  using assms by (simp add: accumulateLetter_def Let_def)

lemma pushRecent_length:
  "int (length w) \<le> count \<Longrightarrow> int (length (pushRecent count w c)) \<le> count"
  by (auto simp: pushRecent_def Let_def)

lemma accumulate_other:
  "sid' \<noteq> sid \<Longrightarrow> snd (accumulateLetter count now letter confidence sid store) sid' = store sid'"
  by (auto simp: accumulateLetter_def Let_def ensureSession_def split: option.splits)

lemma accumulate_window_cases:
  "windowOf (snd (accumulateLetter count now letter confidence sid store)) sid = windowOf store sid
   \<or> windowOf (snd (accumulateLetter count now letter confidence sid store)) sid = []
   \<or> (\<exists>c. normalizeLetter letter = Some c
        \<and> windowOf (snd (accumulateLetter count now letter confidence sid store)) sid
            = pushRecent count (windowOf store sid) c)"
  by (auto simp: accumulateLetter_def Let_def ensureSession_same windowOf_def[of "_(_ \<mapsto> _)"]
      split: option.splits)

lemma accumulate_bounded:
  assumes "windowsBounded count store"
  shows "windowsBounded count (snd (accumulateLetter count now letter confidence sid store))"
  unfolding windowsBounded_def
proof
  fix sid'
  have b: "int (length (windowOf store sid')) \<le> count" "0 \<le> count"
    using assms  unfolding windowsBounded_def  by (auto intro: order_trans[OF _ spec[of _ sid']])
  show "int (length (windowOf (snd (accumulateLetter count now letter confidence sid store)) sid')) \<le> count"
  proof (cases "sid' = sid")
    case True
    then show ?thesis
      using accumulate_window_cases[of count now letter confidence sid store] b
      by (auto simp: pushRecent_length)
  next
    case False
    then show ?thesis using b by (simp add: windowOf_def accumulate_other)
  qed
qed

lemma accumulateAll_Cons:
  "snd (accumulateAll count ((now, letter, confidence, sid) # frames) store)
     = snd (accumulateAll count frames (snd (accumulateLetter count now letter confidence sid store)))"
  "fst (accumulateAll count ((now, letter, confidence, sid) # frames) store)
     = fst (accumulateLetter count now letter confidence sid store)
       # fst (accumulateAll count frames (snd (accumulateLetter count now letter confidence sid store)))"
  by (simp_all add: case_prod_beta Let_def)

lemma accumulateAll_bounded:
  "windowsBounded count store \<Longrightarrow> windowsBounded count (snd (accumulateAll count frames store))"
proof (induction frames arbitrary: store)
  case Nil
  then show ?case by simp
next
  case (Cons f frames)
  obtain now letter confidence sid where f: "f = (now, letter, confidence, sid)"
    by (cases f) auto
  show ?case
    using Cons.IH[OF accumulate_bounded[OF Cons.prems, of now letter confidence sid]]
    by (simp only: f accumulateAll_Cons)
qed

lemma accumulate_validFrame:
  assumes "validFrame sid c (now, letter, confidence, sid)"
    and "w = pushRecent count (windowOf store sid) c"
    and "r = fst (accumulateLetter count now letter confidence sid store)"
    and "store' = snd (accumulateLetter count now letter confidence sid store)"
  shows "(int (length w) < count \<longrightarrow>
            \<not> accepted r \<and> reason r = Some ''insufficient_stability''
            \<and> windowOf store' sid = w \<and> lettersOf store' sid = lettersOf store sid)"
    and "(\<not> int (length w) < count \<and> \<not> list_all (\<lambda>p. p = c) w \<longrightarrow>
            \<not> accepted r \<and> reason r = Some ''unstable''
            \<and> windowOf store' sid = w \<and> lettersOf store' sid = lettersOf store sid)"
    and "(\<not> int (length w) < count \<and> list_all (\<lambda>p. p = c) w
            \<and> lastLetterDiffers (lettersOf store sid) c \<longrightarrow>
            accepted r \<and> reason r = None \<and> acceptedLetter r = Some c
            \<and> windowOf store' sid = [] \<and> lettersOf store' sid = lettersOf store sid @ [c])"
    and "(\<not> int (length w) < count \<and> list_all (\<lambda>p. p = c) w
            \<and> \<not> lastLetterDiffers (lettersOf store sid) c \<longrightarrow>
            accepted r \<and> reason r = None \<and> acceptedLetter r = Some c
            \<and> windowOf store' sid = w \<and> lettersOf store' sid = lettersOf store sid)"
    and "accumulatedText r = concat (lettersOf store' sid)"
  using assms
  by (auto simp: validFrame_def accumulateLetter_def Let_def rejected_def ensureSession_same
      lettersOf_def[of "_(_ \<mapsto> _)"] windowOf_def[of "_(_ \<mapsto> _)"])

lemma pushRecent_shape:
  assumes "w = v @ replicate k c" and "int (length w) \<le> count"
    and "v \<noteq> [] \<longrightarrow> last v \<noteq> c" and "int k < count"
  shows "\<exists>v'. pushRecent count w c = v' @ replicate (Suc k) c
            \<and> (v' \<noteq> [] \<longrightarrow> last v' \<noteq> c)"
proof (cases "v = []")
  case True
  with assms have "pushRecent count w c = [] @ replicate (Suc k) c"
    by (simp add: pushRecent_def Let_def replicate_append_same)
  then show ?thesis by blast
next
  case False
  then obtain x v0 where v: "v = x # v0" by (cases v) auto
  have pushed: "w @ [c] = v @ replicate (Suc k) c"
    using assms(1) by (simp add: replicate_append_same)
  show ?thesis
  proof (cases "int (length (w @ [c])) > count")
    case True
    then have "pushRecent count w c = v0 @ replicate (Suc k) c"
      using pushed v by (simp add: pushRecent_def Let_def)
    moreover have "v0 \<noteq> [] \<longrightarrow> last v0 \<noteq> c"
      using assms(3) v by auto
    ultimately show ?thesis by blast
  next
    case False
    then have "pushRecent count w c = v @ replicate (Suc k) c"
      using pushed by (simp add: pushRecent_def Let_def)
    then show ?thesis using assms(3) by blast
  qed
qed

lemma mixed_not_uniform:
  "v \<noteq> [] \<Longrightarrow> last v \<noteq> c \<Longrightarrow> \<not> list_all (\<lambda>p. p = c) (v @ replicate k c)"
  by (auto simp: list_all_iff) 

lemma runShape_step:
  assumes "runShape count c k w" and "int k < count"
  shows "runShape count c (Suc k) (pushRecent count w c)"
  using assms pushRecent_shape[of w _ k c count] pushRecent_length[of w count c]
  unfolding runShape_def by blast

lemma runShape_rejects:
  assumes "runShape count c k w" and "int k < count"
  shows "int (length w) < count \<or> \<not> list_all (\<lambda>p. p = c) w"
proof -
  from assms obtain v where v: "w = v @ replicate k c" "v \<noteq> [] \<longrightarrow> last v \<noteq> c"
    and len: "int (length w) \<le> count"
    unfolding runShape_def by blast
  show ?thesis
  proof (cases "v = []")
    case True then show ?thesis using v assms(2) by simp
  next
    case False then show ?thesis using v mixed_not_uniform[of v c k] by simp
  qed
qed

lemma runShape_full:
  assumes "runShape count c k w" and "int k = count"
  shows "w = replicate k c"
proof -
  from assms obtain v where v: "w = v @ replicate k c"
    and len: "int (length w) \<le> count"
    unfolding runShape_def by blast
  then have "v = []" using assms(2) by simp
  then show ?thesis using v by simp
qed

lemma run_building:
  assumes "\<forall>f \<in> set frames. validFrame sid c f"
    and "runShape count c k (windowOf store sid)"
    and "int (k + length frames) < count"
  shows "(\<forall>r \<in> set (fst (accumulateAll count frames store)). \<not> accepted r)
       \<and> lettersOf (snd (accumulateAll count frames store)) sid = lettersOf store sid
       \<and> runShape count c (k + length frames) (windowOf (snd (accumulateAll count frames store)) sid)"
  using assms
proof (induction frames arbitrary: store k)
  case Nil
  then show ?case by simp
next
  case (Cons f frames)
  obtain now letter confidence sid' where f: "f = (now, letter, confidence, sid')"
    by (cases f) auto
  have valid: "validFrame sid c (now, letter, confidence, sid)" and sid': "sid' = sid"
    using Cons.prems(1) f by (auto simp: validFrame_def)
  let ?w = "pushRecent count (windowOf store sid) c"
  let ?r = "fst (accumulateLetter count now letter confidence sid store)"
  let ?store = "snd (accumulateLetter count now letter confidence sid store)"
  have k: "int (Suc k) < count" "int k < count" using Cons.prems(3) by auto
  have shape: "runShape count c (Suc k) ?w"
    using runShape_step[OF Cons.prems(2) k(2)] .
  have rej: "int (length ?w) < count \<or> \<not> list_all (\<lambda>p. p = c) ?w"
    using runShape_rejects[OF shape k(1)] .
  have step: "\<not> accepted ?r \<and> windowOf ?store sid = ?w \<and> lettersOf ?store sid = lettersOf store sid"
    using rej accumulate_validFrame(1,2)[OF valid refl refl refl, of count store] by blast
  have "(\<forall>r \<in> set (fst (accumulateAll count frames ?store)). \<not> accepted r)
       \<and> lettersOf (snd (accumulateAll count frames ?store)) sid = lettersOf ?store sid
       \<and> runShape count c (Suc k + length frames) (windowOf (snd (accumulateAll count frames ?store)) sid)"
    using Cons.IH[where store = "?store" and k = "Suc k"] Cons.prems(1,3) shape step by simp
  then show ?case
    using step by (simp add: f sid' accumulateAll_Cons del: accumulateAll.simps)
qed

lemma accumulateAll_append:
  "snd (accumulateAll count (xs @ ys) store) = snd (accumulateAll count ys (snd (accumulateAll count xs store)))"
  "fst (accumulateAll count (xs @ ys) store)
     = fst (accumulateAll count xs store) @ fst (accumulateAll count ys (snd (accumulateAll count xs store)))"
  by (induction xs arbitrary: store) (auto simp: case_prod_beta Let_def)

lemma accumulateAll_single:
  "fst (accumulateAll count [(now, letter, confidence, sid)] store)
     = [fst (accumulateLetter count now letter confidence sid store)]"
  "snd (accumulateAll count [(now, letter, confidence, sid)] store)
     = snd (accumulateLetter count now letter confidence sid store)"
  by (simp_all add: case_prod_beta)

lemma run_commits:
  assumes count: "count = int (length frames)" and nonempty: "frames \<noteq> []"
    and valid: "\<forall>f \<in> set frames. validFrame sid c f"
    and bounded: "int (length (windowOf store sid)) \<le> count"
    and fresh: "windowOf store sid = [] \<or> last (windowOf store sid) \<noteq> c"
    and differs: "lastLetterDiffers (lettersOf store sid) c"
  shows "(\<forall>k < length frames.
            lettersOf (snd (accumulateAll count (take k frames) store)) sid = lettersOf store sid)
       \<and> (\<forall>r \<in> set (butlast (fst (accumulateAll count frames store))). \<not> accepted r)
       \<and> accepted (last (fst (accumulateAll count frames store)))
       \<and> acceptedLetter (last (fst (accumulateAll count frames store))) = Some c
       \<and> lettersOf (snd (accumulateAll count frames store)) sid = lettersOf store sid @ [c]
       \<and> windowOf (snd (accumulateAll count frames store)) sid = []"
proof -
  have shape0: "runShape count c 0 (windowOf store sid)"
    using bounded fresh unfolding runShape_def by auto
  have building: "(\<forall>r \<in> set (fst (accumulateAll count (take k frames) store)). \<not> accepted r)
       \<and> lettersOf (snd (accumulateAll count (take k frames) store)) sid = lettersOf store sid
       \<and> runShape count c k (windowOf (snd (accumulateAll count (take k frames) store)) sid)"
    if "k < length frames" for k
  proof -
    have "\<forall>f \<in> set (take k frames). validFrame sid c f"
      using valid by (auto dest: in_set_takeD)
    moreover have "int (0 + length (take k frames)) < count"
      using that count by simp
    ultimately show ?thesis
      using run_building[of "take k frames" sid c count 0 store] shape0 that by simp
  qed
  obtain now letter confidence sid' where lastf: "last frames = (now, letter, confidence, sid')"
    by (cases "last frames") auto
  have lastvalid: "validFrame sid c (now, letter, confidence, sid)" and sid': "sid' = sid"
    using valid nonempty lastf last_in_set[OF nonempty] by (auto simp: validFrame_def)
  define m where "m = length frames - 1"
  have m: "m < length frames" "Suc m = length frames" "take m frames = butlast frames"
    using nonempty by (auto simp: m_def butlast_conv_take)
  have split: "frames = take m frames @ [(now, letter, confidence, sid)]"
    using nonempty lastf sid' m(3) by (metis append_butlast_last_id)
  let ?store1 = "snd (accumulateAll count (take m frames) store)"
  let ?rs = "fst (accumulateAll count (take m frames) store)"
  let ?r = "fst (accumulateLetter count now letter confidence sid ?store1)"
  let ?store2 = "snd (accumulateLetter count now letter confidence sid ?store1)"
  have results: "fst (accumulateAll count frames store) = ?rs @ [?r]"
    and final: "snd (accumulateAll count frames store) = ?store2"
    using accumulateAll_append[of count "take m frames" "[(now, letter, confidence, sid)]" store]
    by (simp_all only: split[symmetric] accumulateAll_single)
  have before: "(\<forall>r \<in> set ?rs. \<not> accepted r)" "lettersOf ?store1 sid = lettersOf store sid"
    "runShape count c m (windowOf ?store1 sid)"
    using building[OF m(1)] by auto
  let ?w = "pushRecent count (windowOf ?store1 sid) c"
  have "runShape count c (Suc m) ?w"
    using runShape_step[OF before(3)] m(2) count by simp
  then have w: "?w = replicate (Suc m) c"
    using runShape_full[of count c "Suc m" ?w] m(2) count by simp
  have full: "\<not> int (length ?w) < count" "list_all (\<lambda>p. p = c) ?w"
    unfolding w using m(2) count by (simp_all add: list_all_iff del: replicate_Suc)
  have commit: "accepted ?r \<and> acceptedLetter ?r = Some c \<and> windowOf ?store2 sid = []
      \<and> lettersOf ?store2 sid = lettersOf store sid @ [c]"
    using accumulate_validFrame(3)[OF lastvalid refl refl refl, of count ?store1] full differs before(2)
    by simp
  show ?thesis
    using building commit before(1) by (simp add: results final)
qed

lemma suppressed_state:
  assumes "validFrame sid c (now, letter, confidence, sid)"
    and "\<not> int (length (windowOf store sid)) < count"
    and "list_all (\<lambda>p. p = c) (windowOf store sid)"
    and "\<not> lastLetterDiffers (lettersOf store sid) c"
  shows "accepted (fst (accumulateLetter count now letter confidence sid store))
       \<and> acceptedLetter (fst (accumulateLetter count now letter confidence sid store)) = Some c
       \<and> accumulatedText (fst (accumulateLetter count now letter confidence sid store))
           = concat (lettersOf store sid)
       \<and> lettersOf (snd (accumulateLetter count now letter confidence sid store)) sid = lettersOf store sid
       \<and> \<not> int (length (windowOf (snd (accumulateLetter count now letter confidence sid store)) sid)) < count
       \<and> list_all (\<lambda>p. p = c) (windowOf (snd (accumulateLetter count now letter confidence sid store)) sid)"
proof -
  let ?w = "pushRecent count (windowOf store sid) c"
  have w: "?w = tl (windowOf store sid @ [c])"
    using assms(2) by (simp add: pushRecent_def Let_def)
  have full: "\<not> int (length ?w) < count"
    using assms(2) by (simp add: w)
  have "set (tl (windowOf store sid @ [c])) \<subseteq> set (windowOf store sid @ [c])"
    by (cases "windowOf store sid") auto
  then have same: "list_all (\<lambda>p. p = c) ?w"
    using assms(3) unfolding w list_all_iff by auto
  show ?thesis
    using accumulate_validFrame(4,5)[OF assms(1) refl refl refl, of count store] full same assms(4)
    by simp
qed

lemma suppressed_run:
  assumes "\<forall>f \<in> set frames. validFrame sid c f"
    and "\<not> int (length (windowOf store sid)) < count"
    and "list_all (\<lambda>p. p = c) (windowOf store sid)"
    and "\<not> lastLetterDiffers (lettersOf store sid) c"
  shows "(\<forall>r \<in> set (fst (accumulateAll count frames store)).
            accepted r \<and> acceptedLetter r = Some c \<and> accumulatedText r = concat (lettersOf store sid))
       \<and> lettersOf (snd (accumulateAll count frames store)) sid = lettersOf store sid"
  using assms
proof (induction frames arbitrary: store)
  case Nil
  then show ?case by simp
next
  case (Cons f frames)
  obtain now letter confidence sid' where f: "f = (now, letter, confidence, sid')"
    by (cases f) auto
  have valid: "validFrame sid c (now, letter, confidence, sid)" and sid': "sid' = sid"
    using Cons.prems(1) f by (auto simp: validFrame_def)
  let ?store = "snd (accumulateLetter count now letter confidence sid store)"
  note step = suppressed_state[OF valid Cons.prems(2,3,4)]
  have rest: "\<forall>f \<in> set frames. validFrame sid c f"
    using Cons.prems(1) by simp
  have full: "\<not> int (length (windowOf ?store sid)) < count"
    and same: "list_all (\<lambda>p. p = c) (windowOf ?store sid)"
    and keep: "lettersOf ?store sid = lettersOf store sid"
    using step by blast+
  have "(\<forall>r \<in> set (fst (accumulateAll count frames ?store)).
            accepted r \<and> acceptedLetter r = Some c \<and> accumulatedText r = concat (lettersOf ?store sid))
       \<and> lettersOf (snd (accumulateAll count frames ?store)) sid = lettersOf ?store sid"
    using Cons.IH[where store = "?store", OF rest full same] Cons.prems(4) keep by simp
  then show ?case
    using step keep by (simp add: f sid' accumulateAll_Cons del: accumulateAll.simps)
qed

lemmas scenario_simps = scenario_def STABILITY_COUNT_def accumulateLetter_def ensureSession_def
  rejected_def pushRecent_def lastLetterDiffers_def MIN_CONFIDENCE_def lettersOf_def
  windowOf_def normalizeLetter_H normalizeLetter_E Let_def

text \<open>
  C1. With the threshold 3 (the default of \<open>STABILITY_COUNT\<close>) and the minimum confidence
  0.7, the frames (H,0.9) (H,0.9) (H,0.9) (E,0.6) (E,0.92) (E,0.92) (E,0.92) fed to a
  session that does not exist yet give: frames 1 and 2 rejected for insufficient
  stability, frame 3 accepted with the letter H and the text "H", frame 4 rejected for low
  confidence with the store (hence the recent window) as frame 3 left it, frames 5 and 6
  rejected for insufficient stability, frame 7 accepted with the letter E and the text
  "HE".
\<close>

theorem scenario_outcomes:
  assumes "store sid = None"
  shows "map accepted (fst (accumulateAll (STABILITY_COUNT None) (scenario t sid) store))
           = [False, False, True, False, False, False, True]
       \<and> map reason (fst (accumulateAll (STABILITY_COUNT None) (scenario t sid) store))
           = [Some ''insufficient_stability'', Some ''insufficient_stability'', None,
              Some ''low_confidence'',
              Some ''insufficient_stability'', Some ''insufficient_stability'', None]
       \<and> map acceptedLetter (fst (accumulateAll (STABILITY_COUNT None) (scenario t sid) store))
           = [None, None, Some ''H'', None, None, None, Some ''E'']
       \<and> map accumulatedText (fst (accumulateAll (STABILITY_COUNT None) (scenario t sid) store))
           = [[], [], ''H'', ''H'', ''H'', ''H'', ''HE'']
       \<and> windowOf (snd (accumulateAll (STABILITY_COUNT None) (take 3 (scenario t sid)) store)) sid = []
       \<and> snd (accumulateAll (STABILITY_COUNT None) (take 4 (scenario t sid)) store)
           = snd (accumulateAll (STABILITY_COUNT None) (take 3 (scenario t sid)) store)
       \<and> lettersOf (snd (accumulateAll (STABILITY_COUNT None) (scenario t sid) store)) sid
           = [''H'', ''E'']"
proof (intro conjI)
  show "map accepted (fst (accumulateAll (STABILITY_COUNT None) (scenario t sid) store))
           = [False, False, True, False, False, False, True]"
    using assms by (simp add: scenario_simps)
  show "map reason (fst (accumulateAll (STABILITY_COUNT None) (scenario t sid) store))
           = [Some ''insufficient_stability'', Some ''insufficient_stability'', None,
              Some ''low_confidence'',
              Some ''insufficient_stability'', Some ''insufficient_stability'', None]"
    using assms by (simp add: scenario_simps)
  show "map acceptedLetter (fst (accumulateAll (STABILITY_COUNT None) (scenario t sid) store))
           = [None, None, Some ''H'', None, None, None, Some ''E'']"
    using assms by (simp add: scenario_simps)
  show "map accumulatedText (fst (accumulateAll (STABILITY_COUNT None) (scenario t sid) store))
           = [[], [], ''H'', ''H'', ''H'', ''H'', ''HE'']"
    using assms by (simp add: scenario_simps)
  show "windowOf (snd (accumulateAll (STABILITY_COUNT None) (take 3 (scenario t sid)) store)) sid = []"
    using assms by (simp add: scenario_simps)
  show "snd (accumulateAll (STABILITY_COUNT None) (take 4 (scenario t sid)) store)
           = snd (accumulateAll (STABILITY_COUNT None) (take 3 (scenario t sid)) store)"
    using assms by (simp add: scenario_simps)
  show "lettersOf (snd (accumulateAll (STABILITY_COUNT None) (scenario t sid) store)) sid
           = [''H'', ''E'']"
    using assms by (simp add: scenario_simps)
qed

theorem scenario_outcomes_witness:
  "(Map.empty :: sessions) ''default'' = None
   \<and> map accepted (fst (accumulateAll (STABILITY_COUNT None) (scenario id ''default'') Map.empty))
           = [False, False, True, False, False, False, True]
   \<and> map accumulatedText (fst (accumulateAll (STABILITY_COUNT None) (scenario id ''default'') Map.empty))
           = [[], [], ''H'', ''H'', ''H'', ''H'', ''HE'']"
  using scenario_outcomes [of Map.empty "''default''" id] by simp

text \<open>
  C3. Whatever the label, a confidence below \<open>MIN_CONFIDENCE\<close> is rejected with the reason
  \<open>low_confidence\<close>. The store after the call is the store after the creation step alone:
  a session that existed is left as it was, window, letters and time stamp; a session that
  the call creates is empty. The label does not enter the window.
\<close>

theorem low_confidence_rejected:
  assumes "js_lt confidence MIN_CONFIDENCE"
  shows "\<not> accepted (fst (accumulateLetter count now letter confidence sid store))
       \<and> reason (fst (accumulateLetter count now letter confidence sid store)) = Some ''low_confidence''
       \<and> acceptedLetter (fst (accumulateLetter count now letter confidence sid store)) = None
       \<and> snd (accumulateLetter count now letter confidence sid store) = ensureSession store sid now
       \<and> (store sid \<noteq> None \<longrightarrow> snd (accumulateLetter count now letter confidence sid store) = store)
       \<and> windowOf (snd (accumulateLetter count now letter confidence sid store)) sid = windowOf store sid
       \<and> lettersOf (snd (accumulateLetter count now letter confidence sid store)) sid = lettersOf store sid"
  using assms
  by (auto simp: accumulate_low rejected_def ensureSession_same ensureSession_present)

theorem low_confidence_rejected_witness:
  "js_lt (Num (69 / 100)) MIN_CONFIDENCE
   \<and> [''s'' \<mapsto> \<lparr>letters = [''H''], recentPredictions = [''E'', ''E''], updatedAt = 5\<rparr>] ''s'' \<noteq> None
   \<and> reason (fst (accumulateLetter 3 9 (JStr ''E'') (Num (69 / 100)) ''s''
        [''s'' \<mapsto> \<lparr>letters = [''H''], recentPredictions = [''E'', ''E''], updatedAt = 5\<rparr>]))
       = Some ''low_confidence''
   \<and> snd (accumulateLetter 3 9 (JStr ''E'') (Num (69 / 100)) ''s''
        [''s'' \<mapsto> \<lparr>letters = [''H''], recentPredictions = [''E'', ''E''], updatedAt = 5\<rparr>])
       = [''s'' \<mapsto> \<lparr>letters = [''H''], recentPredictions = [''E'', ''E''], updatedAt = 5\<rparr>]"
proof -
  have low: "js_lt (Num (69 / 100)) MIN_CONFIDENCE"
    by (simp add: MIN_CONFIDENCE_def)
  have present: "[''s'' \<mapsto> \<lparr>letters = [''H''], recentPredictions = [''E'', ''E''], updatedAt = 5\<rparr>] ''s'' \<noteq> None"
    by simp
  show ?thesis
    using low present low_confidence_rejected [OF low, of 3 9 "JStr ''E''" "''s''"
      "[''s'' \<mapsto> \<lparr>letters = [''H''], recentPredictions = [''E'', ''E''], updatedAt = 5\<rparr>]"]
    by blast
qed


lemma validFrame_H: "validFrame sid ''H'' (0, JStr ''H'', Num (9 / 10), sid)"
  by (simp add: validFrame_def normalizeLetter_H MIN_CONFIDENCE_def)

lemma framesH_valid: "\<forall>f \<in> set (framesH n sid). validFrame sid ''H'' f"
  by (simp add: framesH_def validFrame_H)

lemmas framesH_simps = framesH_def numeral_2_eq_2 numeral_3_eq_3 heldH_def
  accumulateLetter_def ensureSession_def rejected_def pushRecent_def lastLetterDiffers_def
  MIN_CONFIDENCE_def lettersOf_def windowOf_def normalizeLetter_H Let_def

text \<open>
  C2, as amended. Take a session whose recent window is within the threshold and does not
  end in \<open>c\<close> (an empty window in particular), and whose last committed letter is not \<open>c\<close>.
  Feeding it N frames that pass both gates with the letter \<open>c\<close>, N being the threshold:
  none of the first N-1 calls is accepted and the letters stay as they were after each of
  them; the N-th call is accepted with the letter \<open>c\<close>, the letters are the old ones
  followed by \<open>c\<close>, once, and the window is empty. And for any session: when the window
  after the push is full and uniform and its letter is the last committed one, the call is
  accepted and the letters stay as they were.
\<close>

theorem stable_run_commits_once:
  assumes "count = int (length frames)" and "frames \<noteq> []"
    and "\<forall>f \<in> set frames. validFrame sid c f"
    and "int (length (windowOf store sid)) \<le> count"
    and "windowOf store sid = [] \<or> last (windowOf store sid) \<noteq> c"
    and "lastLetterDiffers (lettersOf store sid) c"
  shows "(\<forall>k < length frames.
            lettersOf (snd (accumulateAll count (take k frames) store)) sid = lettersOf store sid)
       \<and> (\<forall>r \<in> set (butlast (fst (accumulateAll count frames store))). \<not> accepted r)
       \<and> accepted (last (fst (accumulateAll count frames store)))
       \<and> acceptedLetter (last (fst (accumulateAll count frames store))) = Some c
       \<and> lettersOf (snd (accumulateAll count frames store)) sid = lettersOf store sid @ [c]
       \<and> windowOf (snd (accumulateAll count frames store)) sid = []
       \<and> (validFrame sid c (now, letter, confidence, sid)
            \<and> \<not> int (length (pushRecent count (windowOf other sid) c)) < count
            \<and> list_all (\<lambda>p. p = c) (pushRecent count (windowOf other sid) c)
            \<and> \<not> lastLetterDiffers (lettersOf other sid) c
          \<longrightarrow> accepted (fst (accumulateLetter count now letter confidence sid other))
              \<and> acceptedLetter (fst (accumulateLetter count now letter confidence sid other)) = Some c
              \<and> lettersOf (snd (accumulateLetter count now letter confidence sid other)) sid
                  = lettersOf other sid)"
proof -
  have run: "(\<forall>k < length frames.
            lettersOf (snd (accumulateAll count (take k frames) store)) sid = lettersOf store sid)
       \<and> (\<forall>r \<in> set (butlast (fst (accumulateAll count frames store))). \<not> accepted r)
       \<and> accepted (last (fst (accumulateAll count frames store)))
       \<and> acceptedLetter (last (fst (accumulateAll count frames store))) = Some c
       \<and> lettersOf (snd (accumulateAll count frames store)) sid = lettersOf store sid @ [c]
       \<and> windowOf (snd (accumulateAll count frames store)) sid = []"
    using assms by (rule run_commits)
  have dup: "validFrame sid c (now, letter, confidence, sid)
            \<and> \<not> int (length (pushRecent count (windowOf other sid) c)) < count
            \<and> list_all (\<lambda>p. p = c) (pushRecent count (windowOf other sid) c)
            \<and> \<not> lastLetterDiffers (lettersOf other sid) c
          \<longrightarrow> accepted (fst (accumulateLetter count now letter confidence sid other))
              \<and> acceptedLetter (fst (accumulateLetter count now letter confidence sid other)) = Some c
              \<and> lettersOf (snd (accumulateLetter count now letter confidence sid other)) sid
                  = lettersOf other sid"
    using accumulate_validFrame(4)[OF _ refl refl refl, of sid c now letter confidence count other]
    by blast
  from run dup show ?thesis by blast
qed

theorem stable_run_commits_once_witness:
  "map accepted (fst (accumulateAll 3 (framesH 3 ''s'') Map.empty)) = [False, False, True]
   \<and> lettersOf (snd (accumulateAll 3 (framesH 2 ''s'') Map.empty)) ''s'' = []
   \<and> lettersOf (snd (accumulateAll 3 (framesH 3 ''s'') Map.empty)) ''s'' = [''H'']
   \<and> accepted (fst (accumulateLetter 3 0 (JStr ''H'') (Num (9 / 10)) ''s'' heldH))
   \<and> lettersOf (snd (accumulateLetter 3 0 (JStr ''H'') (Num (9 / 10)) ''s'' heldH)) ''s'' = [''H'']"
proof -
  have h1: "(3::int) = int (length (framesH 3 ''s''))" and h2: "framesH 3 ''s'' \<noteq> []"
    by (simp_all add: framesH_def)
  have h3: "int (length (windowOf Map.empty ''s'')) \<le> 3"
    and h4: "windowOf Map.empty ''s'' = [] \<or> last (windowOf Map.empty ''s'') \<noteq> ''H''"
    and h5: "lastLetterDiffers (lettersOf Map.empty ''s'') ''H''"
    by (simp_all add: windowOf_def lettersOf_def lastLetterDiffers_def)
  have d: "validFrame ''s'' ''H'' (0, JStr ''H'', Num (9 / 10), ''s'')
            \<and> \<not> int (length (pushRecent 3 (windowOf heldH ''s'') ''H'')) < 3
            \<and> list_all (\<lambda>p. p = ''H'') (pushRecent 3 (windowOf heldH ''s'') ''H'')
            \<and> \<not> lastLetterDiffers (lettersOf heldH ''s'') ''H''"
    by (simp add: validFrame_H heldH_def windowOf_def lettersOf_def pushRecent_def
        lastLetterDiffers_def)
  have two: "take 2 (framesH 3 ''s'') = framesH 2 ''s''"
    by (simp add: framesH_def)
  have shape: "map accepted (fst (accumulateAll 3 (framesH 3 ''s'') Map.empty)) = [False, False, True]"
    by (simp add: framesH_simps)
  note inst = stable_run_commits_once [OF h1 h2 framesH_valid h3 h4 h5,
      of 0 "JStr ''H''" "Num (9 / 10)" heldH]
  have "lettersOf (snd (accumulateAll 3 (take 2 (framesH 3 ''s'')) Map.empty)) ''s''
          = lettersOf Map.empty ''s''"
    using inst h1 by simp
  then have a: "lettersOf (snd (accumulateAll 3 (framesH 2 ''s'') Map.empty)) ''s'' = []"
    by (simp add: two lettersOf_def)
  have b: "lettersOf (snd (accumulateAll 3 (framesH 3 ''s'') Map.empty)) ''s'' = [''H'']"
    using inst by (simp add: lettersOf_def)
  have c: "accepted (fst (accumulateLetter 3 0 (JStr ''H'') (Num (9 / 10)) ''s'' heldH))
      \<and> lettersOf (snd (accumulateLetter 3 0 (JStr ''H'') (Num (9 / 10)) ''s'' heldH)) ''s''
          = lettersOf heldH ''s''"
    using inst d by blast
  have e: "lettersOf heldH ''s'' = [''H'']"
    by (simp add: heldH_def lettersOf_def)
  show ?thesis using shape a b c e by simp
qed

text \<open>
  C2 as stated fails for a session that is not at the start of a run. After one frame H
  the window holds one H: of the three frames H fed then, the second is already accepted
  and commits the letter. And a session that has committed H and has an empty window takes
  three frames H without appending anything.
\<close>

theorem stable_run_counterexample:
  "windowOf (snd (accumulateAll 3 (framesH 1 ''s'') Map.empty)) ''s'' = [''H'']
   \<and> map accepted (fst (accumulateAll 3 (framesH 3 ''s'')
        (snd (accumulateAll 3 (framesH 1 ''s'') Map.empty)))) = [False, True, False]
   \<and> lettersOf (snd (accumulateAll 3 (framesH 2 ''s'')
        (snd (accumulateAll 3 (framesH 1 ''s'') Map.empty)))) ''s'' = [''H'']
   \<and> lettersOf (snd (accumulateAll 3 (framesH 3 ''s'')
        (snd (accumulateAll 3 (framesH 3 ''s'') Map.empty)))) ''s'' = [''H'']"
  by (simp add: framesH_simps)

text \<open>
  C8, as amended. With a positive threshold: if every stored session has a window within
  the threshold (as in the empty store), then so has every stored session after any
  sequence of calls. A frame that passes both gates leaves the window either empty (after
  a commit) or equal to the old window with the letter appended, the oldest entry being
  dropped when the old window was full.
\<close>

theorem window_within_threshold:
  assumes "0 < count"
    and "\<forall>sid s. store sid = Some s \<longrightarrow> int (length (recentPredictions s)) \<le> count"
  shows "(\<forall>sid s. snd (accumulateAll count frames store) sid = Some s
            \<longrightarrow> int (length (recentPredictions s)) \<le> count)
       \<and> (validFrame sid c (now, letter, confidence, sid) \<longrightarrow>
            windowOf (snd (accumulateLetter count now letter confidence sid store)) sid = []
            \<or> windowOf (snd (accumulateLetter count now letter confidence sid store)) sid
                = (if int (length (windowOf store sid)) < count then windowOf store sid @ [c]
                   else tl (windowOf store sid) @ [c]))"
proof -
  have bounded: "windowsBounded count store"
    using assms by (auto simp: windowsBounded_def windowOf_def split: option.splits)
  have "windowsBounded count (snd (accumulateAll count frames store))"
    using bounded by (rule accumulateAll_bounded)
  then have inv: "\<forall>sid s. snd (accumulateAll count frames store) sid = Some s
            \<longrightarrow> int (length (recentPredictions s)) \<le> count"
    unfolding windowsBounded_def windowOf_def
    by (metis option.simps(5))
  have len: "int (length (windowOf store sid)) \<le> count"
    using bounded by (simp add: windowsBounded_def)
  have push: "pushRecent count (windowOf store sid) c
      = (if int (length (windowOf store sid)) < count then windowOf store sid @ [c]
         else tl (windowOf store sid) @ [c])"
    using len assms(1) by (cases "windowOf store sid") (auto simp: pushRecent_def Let_def)
  have evict: "validFrame sid c (now, letter, confidence, sid) \<longrightarrow>
            windowOf (snd (accumulateLetter count now letter confidence sid store)) sid = []
            \<or> windowOf (snd (accumulateLetter count now letter confidence sid store)) sid
                = (if int (length (windowOf store sid)) < count then windowOf store sid @ [c]
                   else tl (windowOf store sid) @ [c])"
    using accumulate_validFrame(1-4)[OF _ refl refl refl, of sid c now letter confidence count store]
    unfolding push by blast
  from inv evict show ?thesis by blast
qed

theorem window_within_threshold_witness:
  "(0::int) < 3
   \<and> snd (accumulateAll 3 (framesH 2 ''s'') heldH) ''s''
        = Some \<lparr>letters = [''H''], recentPredictions = [''H'', ''H'', ''H''], updatedAt = 0\<rparr>
   \<and> int (length [''H'', ''H'', ''H'']) \<le> 3
   \<and> windowOf (snd (accumulateLetter 3 0 (JStr ''H'') (Num (9 / 10)) ''s'' heldH)) ''s''
        = windowOf heldH ''s'' @ [''H'']"
proof -
  have h1: "(0::int) < 3" by simp
  have h2: "\<forall>sid s. heldH sid = Some s \<longrightarrow> int (length (recentPredictions s)) \<le> 3"
    by (auto simp: heldH_def split: if_splits)
  have v: "snd (accumulateAll 3 (framesH 2 ''s'') heldH) ''s''
        = Some \<lparr>letters = [''H''], recentPredictions = [''H'', ''H'', ''H''], updatedAt = 0\<rparr>"
    by (simp add: framesH_simps)
  note inst = window_within_threshold [OF h1 h2, of "framesH 2 ''s''" "''s''" "''H''" 0
      "JStr ''H''" "Num (9 / 10)"]
  have b: "int (length [''H'', ''H'', ''H'']) \<le> 3"
    using inst v by fastforce
  have w: "windowOf (snd (accumulateLetter 3 0 (JStr ''H'') (Num (9 / 10)) ''s'' heldH)) ''s'' \<noteq> []"
    by (simp add: framesH_simps)
  have l: "int (length (windowOf heldH ''s'')) < 3"
    by (simp add: heldH_def windowOf_def pushRecent_def)
  have "windowOf (snd (accumulateLetter 3 0 (JStr ''H'') (Num (9 / 10)) ''s'' heldH)) ''s''
        = windowOf heldH ''s'' @ [''H'']"
    using inst validFrame_H[of "''s''"] w l by simp
  then show ?thesis using h1 v b by blast
qed

text \<open>
  C8 as stated fails for a negative threshold, which \<open>parseInt(..) || 3\<close> lets through:
  with \<open>STABILITY_COUNT=-1\<close> the first frame H is pushed, shifted out again and committed,
  and the session is left with a window of length 0, which exceeds the threshold -1.
\<close>

theorem window_exceeds_negative_threshold:
  "STABILITY_COUNT (Some (- 1)) = - 1
   \<and> snd (accumulateLetter (STABILITY_COUNT (Some (- 1))) 0 (JStr ''H'') (Num (9 / 10)) ''s'' Map.empty) ''s''
        = Some \<lparr>letters = [''H''], recentPredictions = [], updatedAt = 0\<rparr>
   \<and> \<not> int (length ([] :: string list)) \<le> STABILITY_COUNT (Some (- 1))"
  by (simp add: STABILITY_COUNT_def framesH_simps)

text \<open>
  C9. Take a call that ends in the duplicate-suppression case: the frame passes both
  gates with the letter \<open>c\<close>, the window after the push is full and uniform, and \<open>c\<close> is
  the last committed letter. The call is accepted and leaves that full window in the
  session instead of clearing it. Every frame with the letter \<open>c\<close> that passes both gates
  afterwards, however many follow, is accepted again at once with the accepted letter \<open>c\<close>
  and the accumulated text as it was, and the letters do not change.
\<close>

theorem duplicate_suppression_keeps_window:
  assumes "validFrame sid c (now, letter, confidence, sid)"
    and "\<not> int (length (pushRecent count (windowOf store sid) c)) < count"
    and "list_all (\<lambda>p. p = c) (pushRecent count (windowOf store sid) c)"
    and "\<not> lastLetterDiffers (lettersOf store sid) c"
    and "\<forall>f \<in> set frames. validFrame sid c f"
  shows "accepted (fst (accumulateLetter count now letter confidence sid store))
       \<and> windowOf (snd (accumulateLetter count now letter confidence sid store)) sid
           = pushRecent count (windowOf store sid) c
       \<and> (\<forall>r \<in> set (fst (accumulateAll count frames
                (snd (accumulateLetter count now letter confidence sid store)))).
            accepted r \<and> acceptedLetter r = Some c
            \<and> accumulatedText r = concat (lettersOf store sid))
       \<and> lettersOf (snd (accumulateAll count frames
            (snd (accumulateLetter count now letter confidence sid store)))) sid
           = lettersOf store sid"
proof -
  let ?store = "snd (accumulateLetter count now letter confidence sid store)"
  have first: "accepted (fst (accumulateLetter count now letter confidence sid store))"
    "windowOf ?store sid = pushRecent count (windowOf store sid) c"
    "lettersOf ?store sid = lettersOf store sid"
    using accumulate_validFrame(4)[OF assms(1) refl refl refl, of count store] assms(2,3,4)
    by simp_all
  have full: "\<not> int (length (windowOf ?store sid)) < count"
    and same: "list_all (\<lambda>p. p = c) (windowOf ?store sid)"
    and last: "\<not> lastLetterDiffers (lettersOf ?store sid) c"
    using first assms(2,3,4) by simp_all
  show ?thesis
    using suppressed_run[OF assms(5) full same last] first by simp
qed

theorem duplicate_suppression_keeps_window_witness:
  "windowOf (snd (accumulateLetter 3 0 (JStr ''H'') (Num (9 / 10)) ''s'' heldH)) ''s''
       = [''H'', ''H'', ''H'']
   \<and> map accepted (fst (accumulateAll 3 (framesH 2 ''s'')
        (snd (accumulateLetter 3 0 (JStr ''H'') (Num (9 / 10)) ''s'' heldH)))) = [True, True]
   \<and> map accumulatedText (fst (accumulateAll 3 (framesH 2 ''s'')
        (snd (accumulateLetter 3 0 (JStr ''H'') (Num (9 / 10)) ''s'' heldH)))) = [''H'', ''H'']"
proof -
  have h2: "\<not> int (length (pushRecent 3 (windowOf heldH ''s'') ''H'')) < 3"
    and h3: "list_all (\<lambda>p. p = ''H'') (pushRecent 3 (windowOf heldH ''s'') ''H'')"
    and h4: "\<not> lastLetterDiffers (lettersOf heldH ''s'') ''H''"
    by (simp_all add: heldH_def windowOf_def lettersOf_def pushRecent_def lastLetterDiffers_def)
  note inst = duplicate_suppression_keeps_window [OF validFrame_H h2 h3 h4 framesH_valid, of 2]
  have w: "pushRecent 3 (windowOf heldH ''s'') ''H'' = [''H'', ''H'', ''H'']"
    by (simp add: heldH_def windowOf_def pushRecent_def)
  have n: "length (fst (accumulateAll 3 (framesH 2 ''s'')
        (snd (accumulateLetter 3 0 (JStr ''H'') (Num (9 / 10)) ''s'' heldH)))) = 2"
    by (simp add: framesH_def numeral_2_eq_2 case_prod_beta)
  have t: "concat (lettersOf heldH ''s'') = ''H''"
    by (simp add: heldH_def lettersOf_def)
  have "map accepted (fst (accumulateAll 3 (framesH 2 ''s'')
        (snd (accumulateLetter 3 0 (JStr ''H'') (Num (9 / 10)) ''s'' heldH))))
        = replicate 2 True"
    using inst n by (intro replicate_eqI) auto
  moreover have "map accumulatedText (fst (accumulateAll 3 (framesH 2 ''s'')
        (snd (accumulateLetter 3 0 (JStr ''H'') (Num (9 / 10)) ''s'' heldH))))
        = replicate 2 ''H''"
    using inst n t by (intro replicate_eqI) auto
  ultimately show ?thesis
    using inst w by (simp add: numeral_2_eq_2)
qed


section \<open>Properties of the hand-off\<close>

lemma trim_examples: "trim ''H'' = ''H''" "trim ''Hi.'' = ''Hi.''" "trim [] = []"
  by code_simp+

lemmas overlapping_simps = committedH_def overlappingEvents_def sendToGemini_start_def
  sendToGemini_resume_def accumulateLetter_def ensureSession_def rejected_def pushRecent_def
  lastLetterDiffers_def MIN_CONFIDENCE_def lettersOf_def normalizeLetter_E trim_examples Let_def

text \<open>
  C4, as amended. The hand-off is two steps. The first reads the accumulated text (the
  joined letters of the session when the request carries no text of its own) and keeps it
  in the suspended handler. The second, run when the sentence service has answered, sends
  back the text that the first step read and deletes the session from the store as it is
  then, whatever store that is: in particular the store that any calls of
  \<open>accumulateLetter\<close>, made in between, have left.
\<close>

theorem handoff_reads_then_deletes:
  assumes "sendToGemini_start store sid text = Inr sanitized"
  shows "(text = JUndefined \<or> text = JNull \<longrightarrow> sanitized = trim (concat (lettersOf store sid)))
       \<and> fst (sendToGemini_resume later sid sanitized (Inr generated))
           = Sentence (trim generated) sanitized
       \<and> snd (sendToGemini_resume later sid sanitized (Inr generated)) = later(sid := None)
       \<and> snd (sendToGemini_resume
                (snd (accumulateAll count frames store)) sid sanitized (Inr generated)) sid = None"
  using assms
  by (auto simp: sendToGemini_start_def sendToGemini_resume_def lettersOf_def Let_def
      split: option.splits if_splits)

theorem handoff_reads_then_deletes_witness:
  "sendToGemini_start (letterSessions committedH) ''s'' JUndefined = Inr ''H''
   \<and> fst (sendToGemini_resume (letterSessions committedH) ''s'' ''H'' (Inr ''Hi.''))
       = Sentence ''Hi.'' ''H''
   \<and> snd (sendToGemini_resume (letterSessions committedH) ''s'' ''H'' (Inr ''Hi.'')) ''s'' = None"
proof -
  have start: "sendToGemini_start (letterSessions committedH) ''s'' JUndefined = Inr ''H''"
    by (simp add: overlapping_simps)
  note inst = handoff_reads_then_deletes [OF start, where later = "letterSessions committedH"
      and generated = "''Hi.''" and count = 3 and frames = "[]"]
  have "fst (sendToGemini_resume (letterSessions committedH) ''s'' ''H'' (Inr ''Hi.''))
       = Sentence (trim ''Hi.'') ''H''"
    using inst by blast
  moreover have "snd (sendToGemini_resume (letterSessions committedH) ''s'' ''H'' (Inr ''Hi.''))
       = (letterSessions committedH)(''s'' := None)"
    using inst by blast
  ultimately show ?thesis
    using start by (simp add: trim_examples)
qed

text \<open>
  C4 as stated fails: the read and the deletion are not one atomic step. A session holds
  the letter H; the hand-off reads "H" and is suspended; three frames E arrive and commit
  E, so that the session holds H and E just before the deletion; the answer of the
  sentence service arrives, the response carries the text "H", and the session is
  deleted together with the E that was never handed off.
\<close>

theorem handoff_not_atomic:
  "sendToGemini_start (letterSessions committedH) ''s'' JUndefined = Inr ''H''
   \<and> awaiting (snd (serverRun 3 committedH (take 1 overlappingEvents))) = [(''s'', ''H'')]
   \<and> lettersOf (letterSessions (snd (serverRun 3 committedH (take 4 overlappingEvents)))) ''s''
       = [''H'', ''E'']
   \<and> last (fst (serverRun 3 committedH overlappingEvents)) = Some (Sentence ''Hi.'' ''H'')
   \<and> letterSessions (snd (serverRun 3 committedH overlappingEvents)) ''s'' = None"
  by (simp add: overlapping_simps)

text \<open>
  C10. The step in which the request to \<open>/api/send-to-gemini\<close> arrives leaves the store
  as it is. When the sentence service fails, the resumed handler leaves the store as it is
  and answers with the status 500; when it succeeds, the resumed handler answers with the
  sentence and removes the session, and only then.
\<close>

theorem session_deleted_only_on_success:
  "letterSessions (snd (serverStep count srv (SendToGemini sid text))) = letterSessions srv
   \<and> letterSessions (snd (serverStep count srv (GeminiSettled k (Inl message)))) = letterSessions srv
   \<and> (k < length (awaiting srv) \<and> awaiting srv ! k = (sid, sanitized) \<longrightarrow>
        fst (serverStep count srv (GeminiSettled k (Inl message)))
          = Some (Status500 ''Failed to generate sentence'' message)
        \<and> fst (serverStep count srv (GeminiSettled k (Inr generated)))
          = Some (Sentence (trim generated) sanitized)
        \<and> letterSessions (snd (serverStep count srv (GeminiSettled k (Inr generated))))
          = (letterSessions srv)(sid := None))"
  by (auto simp: sendToGemini_resume_def Let_def split: sum.splits prod.splits)

theorem session_deleted_only_on_success_witness:
  "awaiting (snd (serverStep 3 committedH (SendToGemini ''s'' JUndefined))) = [(''s'', ''H'')]
   \<and> letterSessions (snd (serverStep 3 (snd (serverStep 3 committedH (SendToGemini ''s'' JUndefined)))
        (GeminiSettled 0 (Inl ''quota exceeded'')))) = letterSessions committedH
   \<and> fst (serverStep 3 (snd (serverStep 3 committedH (SendToGemini ''s'' JUndefined)))
        (GeminiSettled 0 (Inl ''quota exceeded'')))
       = Some (Status500 ''Failed to generate sentence'' ''quota exceeded'')
   \<and> letterSessions (snd (serverStep 3 (snd (serverStep 3 committedH (SendToGemini ''s'' JUndefined)))
        (GeminiSettled 0 (Inr ''Hi.'')))) ''s'' = None"
proof -
  let ?srv = "snd (serverStep 3 committedH (SendToGemini ''s'' JUndefined))"
  have w: "awaiting ?srv = [(''s'', ''H'')]" and l: "letterSessions ?srv = letterSessions committedH"
    by (simp_all add: overlapping_simps)
  have h: "0 < length (awaiting ?srv) \<and> awaiting ?srv ! 0 = (''s'', ''H'')"
    unfolding w by simp
  note inst = session_deleted_only_on_success [of 3 ?srv "''s''" JUndefined 0 "''quota exceeded''"
      "''H''" "''Hi.''"]
  have a: "letterSessions (snd (serverStep 3 ?srv (GeminiSettled 0 (Inl ''quota exceeded''))))
      = letterSessions committedH"
    using inst l by (simp del: serverStep.simps)
  have b: "fst (serverStep 3 ?srv (GeminiSettled 0 (Inl ''quota exceeded'')))
       = Some (Status500 ''Failed to generate sentence'' ''quota exceeded'')"
    using inst h by blast
  have "letterSessions (snd (serverStep 3 ?srv (GeminiSettled 0 (Inr ''Hi.''))))
       = (letterSessions ?srv)(''s'' := None)"
    using inst h by blast
  then have c: "letterSessions (snd (serverStep 3 ?srv (GeminiSettled 0 (Inr ''Hi.'')))) ''s'' = None"
    by (simp del: serverStep.simps)
  from w a b c show ?thesis by blast
qed

section \<open>Properties of the bridge to the classifier process\<close>

lemma settle_fields:
  "pythonProcess (settle p x st) = pythonProcess st"
  "stdoutInterface (settle p x st) = stdoutInterface st"
  "requestCounter (settle p x st) = requestCounter st"
  "pendingRequests (settle p x st) = pendingRequests st"
  "timers (settle p x st) = timers st"
  "promiseCount (settle p x st) = promiseCount st"
  "timerCount (settle p x st) = timerCount st"
  "spawned (settle p x st) = spawned st"
  "stdinLines (settle p x st) = stdinLines st"
  "console (settle p x st) = console st"
  by (simp_all add: settle_def split: option.splits)

lemma settle_settled:
  "settled (settle p x st) q = (if q = p \<and> settled st p = None then Some x else settled st q)"
  by (simp add: settle_def split: option.splits)

lemma clearTimeout_fields:
  "pythonProcess (clearTimeout t st) = pythonProcess st"
  "stdoutInterface (clearTimeout t st) = stdoutInterface st"
  "requestCounter (clearTimeout t st) = requestCounter st"
  "pendingRequests (clearTimeout t st) = pendingRequests st"
  "settled (clearTimeout t st) = settled st"
  "promiseCount (clearTimeout t st) = promiseCount st"
  "timerCount (clearTimeout t st) = timerCount st"
  "spawned (clearTimeout t st) = spawned st"
  "stdinLines (clearTimeout t st) = stdinLines st"
  "console (clearTimeout t st) = console st"
  "timers (clearTimeout t st) u = (if u = t then None else timers st u)"
  by (simp_all add: clearTimeout_def)

lemma rejectAll_Nil: "rejectAll [] st = st"
  by (simp add: rejectAll_def)

lemma rejectAll_Cons:
  "rejectAll ((key, entry) # entries) st =
     rejectAll entries
       (settle (promise entry) (Rejected (Error (JStr ''Classifier worker exited unexpectedly'')))
          (clearTimeout (timeout entry) st))"
  by (simp add: rejectAll_def)

lemma rejectAll_fields:
  "pythonProcess (rejectAll entries st) = pythonProcess st
   \<and> stdoutInterface (rejectAll entries st) = stdoutInterface st
   \<and> requestCounter (rejectAll entries st) = requestCounter st
   \<and> pendingRequests (rejectAll entries st) = pendingRequests st
   \<and> promiseCount (rejectAll entries st) = promiseCount st
   \<and> timerCount (rejectAll entries st) = timerCount st
   \<and> spawned (rejectAll entries st) = spawned st
   \<and> stdinLines (rejectAll entries st) = stdinLines st
   \<and> console (rejectAll entries st) = console st"
proof (induction entries arbitrary: st)
  case Nil
  then show ?case by (simp add: rejectAll_Nil)
next
  case (Cons e entries)
  obtain key entry where e: "e = (key, entry)" by (cases e) auto
  show ?case
    unfolding e rejectAll_Cons
    by (simp add: Cons.IH settle_fields clearTimeout_fields)
qed

lemma rejectAll_settled:
  "settled (rejectAll entries st) q =
     (if settled st q = None \<and> q \<in> (\<lambda>(key, entry). promise entry) ` set entries
      then Some (Rejected (Error (JStr ''Classifier worker exited unexpectedly'')))
      else settled st q)"
proof (induction entries arbitrary: st)
  case Nil
  then show ?case by (simp add: rejectAll_Nil)
next
  case (Cons e entries)
  obtain key entry where e: "e = (key, entry)" by (cases e) auto
  show ?case
    unfolding e rejectAll_Cons Cons.IH
    by (auto simp: settle_settled clearTimeout_fields)
qed

lemma rejectAll_timers:
  "timers (rejectAll entries st) u =
     (if u \<in> (\<lambda>(key, entry). timeout entry) ` set entries then None else timers st u)"
proof (induction entries arbitrary: st)
  case Nil
  then show ?case by (simp add: rejectAll_Nil)
next
  case (Cons e entries)
  obtain key entry where e: "e = (key, entry)" by (cases e) auto
  show ?case
    unfolding e rejectAll_Cons Cons.IH
    by (auto simp: settle_fields clearTimeout_fields)
qed

lemma cleanupWorker_fields:
  "pythonProcess (cleanupWorker st) = None"
  "stdoutInterface (cleanupWorker st) = None"
  "requestCounter (cleanupWorker st) = requestCounter st"
  "pendingRequests (cleanupWorker st) = pendingRequests st"
  "settled (cleanupWorker st) = settled st"
  "timers (cleanupWorker st) = timers st"
  "promiseCount (cleanupWorker st) = promiseCount st"
  "timerCount (cleanupWorker st) = timerCount st"
  "spawned (cleanupWorker st) = spawned st"
  "stdinLines (cleanupWorker st) = stdinLines st"
  by (simp_all add: cleanupWorker_def Let_def split: option.splits)

lemma onExit_fields:
  "pythonProcess (onExit code signal st) = None"
  "stdoutInterface (onExit code signal st) = None"
  "pendingRequests (onExit code signal st) = []"
  "requestCounter (onExit code signal st) = requestCounter st"
  "promiseCount (onExit code signal st) = promiseCount st"
  "timerCount (onExit code signal st) = timerCount st"
  "spawned (onExit code signal st) = spawned st"
  "stdinLines (onExit code signal st) = stdinLines st"
  by (simp_all add: onExit_def Let_def rejectAll_fields cleanupWorker_fields)

lemma onExit_settled:
  "settled (onExit code signal st) q =
     (if settled st q = None \<and> q \<in> (\<lambda>(key, entry). promise entry) ` set (pendingRequests st)
      then Some (Rejected (Error (JStr ''Classifier worker exited unexpectedly'')))
      else settled st q)"
  by (simp add: onExit_def Let_def rejectAll_settled cleanupWorker_fields)

lemma onExit_timers:
  "timers (onExit code signal st) u =
     (if u \<in> (\<lambda>(key, entry). timeout entry) ` set (pendingRequests st) then None else timers st u)"
  by (simp add: onExit_def Let_def rejectAll_timers cleanupWorker_fields)

lemma classify_fresh:
  assumes "pythonProcess st = None"
  shows "fst (classifyLetterFromBase64 img now None st) = Inr (promiseCount st)"
    and "pythonProcess (snd (classifyLetterFromBase64 img now None st))
           = Some \<lparr>pid = spawned st, killed = False\<rparr>"
    and "spawned (snd (classifyLetterFromBase64 img now None st)) = Suc (spawned st)"
    and "pendingRequests (snd (classifyLetterFromBase64 img now None st))
           = AList.update (makeRequestId now (Suc (requestCounter st)))
               \<lparr>promise = promiseCount st, timeout = timerCount st\<rparr> (pendingRequests st)"
    and "stdinLines (snd (classifyLetterFromBase64 img now None st))
           = stdinLines st @ [(spawned st, makeRequestId now (Suc (requestCounter st)), img)]"
    and "timers (snd (classifyLetterFromBase64 img now None st)) (timerCount st)
           = Some \<lparr>timerRequestId = makeRequestId now (Suc (requestCounter st)),
                   timerPromise = promiseCount st, timerDelay = REQUEST_TIMEOUT_MS\<rparr>"
  using assms
  by (simp_all add: classifyLetterFromBase64_def ensureWorker_def startWorker_def Let_def)

lemma requestIds:
  "makeRequestId 5 (Suc 0) = ''req_5_1''" "makeRequestId 5 (Suc (Suc 0)) = ''req_5_2''"
  "makeRequestId 6 (Suc (Suc (Suc 0))) = ''req_6_3''"
  "makeRequestId 7 (Suc (Suc (Suc (Suc 0)))) = ''req_7_4''"
  by code_simp+

lemmas bridge_simps = classifyLetterFromBase64_def ensureWorker_def startWorker_def
  initialClassifier_def Let_def requestIds

lemma threePending_state:
  "pendingRequests threePending =
     [(''req_5_1'', \<lparr>promise = 0, timeout = 0\<rparr>),
      (''req_5_2'', \<lparr>promise = Suc 0, timeout = Suc 0\<rparr>),
      (''req_6_3'', \<lparr>promise = Suc (Suc 0), timeout = Suc (Suc 0)\<rparr>)]"
  "settled threePending = Map.empty"
  "pythonProcess threePending = Some \<lparr>pid = 0, killed = False\<rparr>"
  "promiseCount threePending = Suc (Suc (Suc 0))" "timerCount threePending = Suc (Suc (Suc 0))"
  "spawned threePending = Suc 0"
  "requestCounter threePending = Suc (Suc (Suc 0))"
  by (simp_all add: threePending_def bridge_simps)

text \<open>
  C5. After the listener of the \<open>exit\<close> event has run, whatever the exit code and signal,
  the process handle and the line reader are cleared, no request is pending, and every
  request that was pending has its timer cleared and its promise, if it was not settled
  before, rejected with the error "Classifier worker exited unexpectedly". The next call
  of \<open>classifyLetterFromBase64\<close> does not throw: it spawns a new process, returns a new
  promise, registers the request as the only pending one and writes it to the new process.
\<close>

theorem worker_exit_rejects_pending:
  "pythonProcess (onExit code signal st) = None
   \<and> stdoutInterface (onExit code signal st) = None
   \<and> pendingRequests (onExit code signal st) = []
   \<and> (\<forall>(key, entry) \<in> set (pendingRequests st).
         timers (onExit code signal st) (timeout entry) = None
         \<and> (settled st (promise entry) = None \<longrightarrow>
              settled (onExit code signal st) (promise entry)
                = Some (Rejected (Error (JStr ''Classifier worker exited unexpectedly'')))))
   \<and> fst (classifyLetterFromBase64 img now None (onExit code signal st)) = Inr (promiseCount st)
   \<and> pythonProcess (snd (classifyLetterFromBase64 img now None (onExit code signal st)))
        = Some \<lparr>pid = spawned st, killed = False\<rparr>
   \<and> spawned (snd (classifyLetterFromBase64 img now None (onExit code signal st)))
        = Suc (spawned st)
   \<and> pendingRequests (snd (classifyLetterFromBase64 img now None (onExit code signal st)))
        = [(makeRequestId now (Suc (requestCounter st)),
            \<lparr>promise = promiseCount st, timeout = timerCount st\<rparr>)]
   \<and> stdinLines (snd (classifyLetterFromBase64 img now None (onExit code signal st)))
        = stdinLines st @ [(spawned st, makeRequestId now (Suc (requestCounter st)), img)]"
proof -
  have swept: "\<forall>(key, entry) \<in> set (pendingRequests st).
         timers (onExit code signal st) (timeout entry) = None
         \<and> (settled st (promise entry) = None \<longrightarrow>
              settled (onExit code signal st) (promise entry)
                = Some (Rejected (Error (JStr ''Classifier worker exited unexpectedly''))))"
    by (auto simp: onExit_settled onExit_timers)
  have gone: "pythonProcess (onExit code signal st) = None"
    by (simp add: onExit_fields)
  show ?thesis
    using swept classify_fresh[OF gone, of img now]
    by (simp add: onExit_fields)
qed

theorem worker_exit_rejects_pending_witness:
  "map (settled (onExit JNull (JStr ''SIGKILL'') threePending)) [0, 1, 2]
     = replicate 3 (Some (Rejected (Error (JStr ''Classifier worker exited unexpectedly''))))
   \<and> pendingRequests (onExit JNull (JStr ''SIGKILL'') threePending) = []
   \<and> pythonProcess (onExit JNull (JStr ''SIGKILL'') threePending) = None
   \<and> fst (classifyLetterFromBase64 (JStr ''d'') 7 None (onExit JNull (JStr ''SIGKILL'') threePending))
       = Inr 3
   \<and> pythonProcess (snd (classifyLetterFromBase64 (JStr ''d'') 7 None
        (onExit JNull (JStr ''SIGKILL'') threePending))) = Some \<lparr>pid = 1, killed = False\<rparr>
   \<and> pendingRequests (snd (classifyLetterFromBase64 (JStr ''d'') 7 None
        (onExit JNull (JStr ''SIGKILL'') threePending)))
       = [(''req_7_4'', \<lparr>promise = 3, timeout = 3\<rparr>)]"
  using worker_exit_rejects_pending [of JNull "JStr ''SIGKILL''" threePending "JStr ''d''" 7]
  by (simp add: threePending_state requestIds numeral_2_eq_2 numeral_3_eq_3)

lemma late_answer_dropped:
  assumes "map_of (pendingRequests st) rid = None" and "getProp payload ''id'' = JStr rid"
  shows "onLine JSON_parse line st = Inr st \<or> JSON_parse line \<noteq> Some payload"
  using assms by (cases payload) (auto simp: onLine_def)

lemma classify_arms_timer:
  assumes "\<forall>pr. pythonProcess st = Some pr \<longrightarrow> \<not> killed pr"
  shows "fst (classifyLetterFromBase64 img now None st) = Inr (promiseCount st)"
    and "map_of (pendingRequests (snd (classifyLetterFromBase64 img now None st)))
           (makeRequestId now (Suc (requestCounter st)))
           = Some \<lparr>promise = promiseCount st, timeout = timerCount st\<rparr>"
    and "timers (snd (classifyLetterFromBase64 img now None st)) (timerCount st)
           = Some \<lparr>timerRequestId = makeRequestId now (Suc (requestCounter st)),
                   timerPromise = promiseCount st, timerDelay = REQUEST_TIMEOUT_MS\<rparr>"
  using assms
  by (auto simp: classifyLetterFromBase64_def ensureWorker_def startWorker_def Let_def
      update_conv split: option.splits)

lemma settle_stays: "settled st p = Some x \<Longrightarrow> settled (settle q y st) p = Some x"
  by (auto simp: settle_settled)

lemma onTimeout_stays: "settled st p = Some x \<Longrightarrow> settled (onTimeout t st) p = Some x"
  by (simp add: onTimeout_def Let_def settle_stays split: option.splits)

lemma onExit_stays: "settled st p = Some x \<Longrightarrow> settled (onExit code signal st) p = Some x"
  by (simp add: onExit_settled)

lemma classify_stays:
  "settled st p = Some x \<Longrightarrow>
   settled (snd (classifyLetterFromBase64 img now writeThrows st)) p = Some x"
proof -
  assume a: "settled st p = Some x"
  have e: "settled (ensureWorker st) = settled st"
    by (simp add: ensureWorker_def startWorker_def split: option.splits)
  show ?thesis
    unfolding classifyLetterFromBase64_def Let_def
    by (simp add: e a settle_stays clearTimeout_def split: option.splits)
qed

lemma onLine_stays:
  assumes "settled st p = Some x" and "onLine JSON_parse line st = Inr st'"
  shows "settled st' p = Some x"
proof (cases "trim line = []")
  case True
  then show ?thesis using assms by (simp add: onLine_def)
next
  case False
  show ?thesis
  proof (cases "JSON_parse line")
    case None
    then show ?thesis using assms False by (auto simp: onLine_def)
  next
    case (Some payload)
    show ?thesis
    proof (cases "getPending (pendingRequests st) (getProp payload ''id'')")
      case None
      then show ?thesis using assms False Some by (auto simp: onLine_def split: if_splits)
    next
      case found: (Some ke)
      obtain key entry where ke: "ke = (key, entry)" by (cases ke) auto
      have "settled (clearTimeout (timeout entry) st
              \<lparr>pendingRequests := AList.delete key (pendingRequests (clearTimeout (timeout entry) st))\<rparr>) p
            = Some x"
        using assms(1) by (simp add: clearTimeout_def)
      then show ?thesis
        using assms(2) False Some found ke
        by (auto simp: onLine_def Let_def settle_stays split: if_splits)
    qed
  qed
qed

lemma cleanupWorker_stays: "settled st p = Some x \<Longrightarrow> settled (cleanupWorker st) p = Some x"
  by (simp add: cleanupWorker_fields)

lemma bridgeStep_settled_stays:
  "settled st p = Some x \<Longrightarrow> bridgeStep JSON_parse st e = Inr st' \<Longrightarrow> settled st' p = Some x"
  by (cases e)
    (auto simp: onTimeout_stays onExit_stays classify_stays cleanupWorker_stays stopClassifier_def
      dest: onLine_stays)

lemma bridgeRun_settled_stays:
  "settled st p = Some x \<Longrightarrow> bridgeRun JSON_parse st es = Inr st' \<Longrightarrow> settled st' p = Some x"
proof (induction es arbitrary: st)
  case Nil
  then show ?case by simp
next
  case (Cons e es)
  then show ?case
    by (auto split: sum.splits dest: bridgeStep_settled_stays)
qed

text \<open>
  C6. The timer of a request is armed with the delay 12000 ms. When it fires while the
  request is still pending and its promise not settled, the promise is rejected with the
  error "Classifier request timed out" and the entry of the request is removed; the
  entries of the other requests and the other promises are as before; the timer is gone,
  so that firing it again changes nothing; a line that answers the request afterwards
  leaves the whole state as it is; and whatever happens to the bridge later, the promise
  stays rejected with that error.
\<close>

theorem timeout_rejects_once:
  assumes "timers st t = Some \<lparr>timerRequestId = rid, timerPromise = p, timerDelay = d\<rparr>"
    and "map_of (pendingRequests st) rid \<noteq> None"
    and "settled st p = None"
  shows "settled (onTimeout t st) p
           = Some (Rejected (Error (JStr ''Classifier request timed out'')))
       \<and> map_of (pendingRequests (onTimeout t st)) rid = None
       \<and> timers (onTimeout t st) t = None
       \<and> onTimeout t (onTimeout t st) = onTimeout t st
       \<and> (\<forall>k. k \<noteq> rid \<longrightarrow>
             map_of (pendingRequests (onTimeout t st)) k = map_of (pendingRequests st) k)
       \<and> (\<forall>q. q \<noteq> p \<longrightarrow> settled (onTimeout t st) q = settled st q)
       \<and> (JSON_parse line = Some payload \<and> getProp payload ''id'' = JStr rid \<longrightarrow>
             onLine JSON_parse line (onTimeout t st) = Inr (onTimeout t st))
       \<and> (bridgeRun JSON_parse (onTimeout t st) events = Inr final \<longrightarrow>
             settled final p = Some (Rejected (Error (JStr ''Classifier request timed out''))))
       \<and> ((\<forall>pr. pythonProcess st0 = Some pr \<longrightarrow> \<not> killed pr) \<longrightarrow>
             timers (snd (classifyLetterFromBase64 img now None st0)) (timerCount st0)
               = Some \<lparr>timerRequestId = makeRequestId now (Suc (requestCounter st0)),
                       timerPromise = promiseCount st0, timerDelay = 12000\<rparr>)"
proof -
  have fired: "onTimeout t st =
      settle p (Rejected (Error (JStr ''Classifier request timed out'')))
        (st\<lparr>timers := (timers st)(t := None),
            pendingRequests := AList.delete rid (pendingRequests st)\<rparr>)"
    using assms(1,2) by (simp add: onTimeout_def Let_def)
  have a: "settled (onTimeout t st) p
           = Some (Rejected (Error (JStr ''Classifier request timed out'')))"
    using assms(3) by (simp add: fired settle_settled)
  have b: "map_of (pendingRequests (onTimeout t st)) rid = None"
    by (simp add: fired settle_fields delete_conv)
  have c: "timers (onTimeout t st) t = None"
    by (simp add: fired settle_fields)
  have d: "onTimeout t (onTimeout t st) = onTimeout t st"
    using c by (simp add: onTimeout_def[of t "onTimeout t st"])
  have e: "\<forall>k. k \<noteq> rid \<longrightarrow>
             map_of (pendingRequests (onTimeout t st)) k = map_of (pendingRequests st) k"
    by (simp add: fired settle_fields delete_conv)
  have f: "\<forall>q. q \<noteq> p \<longrightarrow> settled (onTimeout t st) q = settled st q"
    by (simp add: fired settle_settled)
  have g: "JSON_parse line = Some payload \<and> getProp payload ''id'' = JStr rid \<longrightarrow>
             onLine JSON_parse line (onTimeout t st) = Inr (onTimeout t st)"
    using late_answer_dropped[OF b, of payload JSON_parse line] by blast
  have h: "bridgeRun JSON_parse (onTimeout t st) events = Inr final \<longrightarrow>
             settled final p = Some (Rejected (Error (JStr ''Classifier request timed out'')))"
    using bridgeRun_settled_stays[OF a] by blast
  have i: "(\<forall>pr. pythonProcess st0 = Some pr \<longrightarrow> \<not> killed pr) \<longrightarrow>
             timers (snd (classifyLetterFromBase64 img now None st0)) (timerCount st0)
               = Some \<lparr>timerRequestId = makeRequestId now (Suc (requestCounter st0)),
                       timerPromise = promiseCount st0, timerDelay = 12000\<rparr>"
    using classify_arms_timer(3)[of st0 img now] by (simp add: REQUEST_TIMEOUT_MS_def)
  from a b c d e f g h i show ?thesis by blast
qed

lemma onePending_state:
  "pendingRequests onePending = [(''req_5_1'', \<lparr>promise = 0, timeout = 0\<rparr>)]"
  "settled onePending = Map.empty"
  "timers onePending 0 = Some \<lparr>timerRequestId = ''req_5_1'', timerPromise = 0, timerDelay = 12000\<rparr>"
  by (simp_all add: onePending_def bridge_simps REQUEST_TIMEOUT_MS_def)

theorem timeout_rejects_once_witness:
  "timers onePending 0 = Some \<lparr>timerRequestId = ''req_5_1'', timerPromise = 0, timerDelay = 12000\<rparr>
   \<and> settled (onTimeout 0 onePending) 0
       = Some (Rejected (Error (JStr ''Classifier request timed out'')))
   \<and> pendingRequests (onTimeout 0 onePending) = []
   \<and> onLine (\<lambda>line. Some (answerFor ''req_5_1'')) ''{}'' (onTimeout 0 onePending)
       = Inr (onTimeout 0 onePending)
   \<and> timers (snd (classifyLetterFromBase64 JNull 0 None initialClassifier)) 0
       = Some \<lparr>timerRequestId = makeRequestId 0 (Suc 0), timerPromise = 0, timerDelay = 12000\<rparr>"
proof -
  have h1: "timers onePending 0
      = Some \<lparr>timerRequestId = ''req_5_1'', timerPromise = 0, timerDelay = 12000\<rparr>"
    and h2: "map_of (pendingRequests onePending) ''req_5_1'' \<noteq> None"
    and h3: "settled onePending 0 = None"
    by (simp_all add: onePending_state)
  note inst = timeout_rejects_once [OF h1 h2 h3, of "\<lambda>line. Some (answerFor ''req_5_1'')"
      "''{}''" "answerFor ''req_5_1''" "[]" "onTimeout 0 onePending" initialClassifier JNull 0]
  have id: "getProp (answerFor ''req_5_1'') ''id'' = JStr ''req_5_1''"
    by (simp add: answerFor_def)
  have usable: "\<forall>pr. pythonProcess initialClassifier = Some pr \<longrightarrow> \<not> killed pr"
    by (simp add: initialClassifier_def)
  have a: "settled (onTimeout 0 onePending) 0
       = Some (Rejected (Error (JStr ''Classifier request timed out'')))"
    using inst by blast
  have b: "onLine (\<lambda>line. Some (answerFor ''req_5_1'')) ''{}'' (onTimeout 0 onePending)
       = Inr (onTimeout 0 onePending)"
    using inst id by blast
  have c: "pendingRequests (onTimeout 0 onePending) = []"
    using h1 by (simp add: onTimeout_def Let_def onePending_state settle_fields)
  have e: "timers (snd (classifyLetterFromBase64 JNull 0 None initialClassifier)) 0
       = Some \<lparr>timerRequestId = makeRequestId 0 (Suc 0), timerPromise = 0, timerDelay = 12000\<rparr>"
    using inst usable by (simp add: initialClassifier_def)
  from h1 a b c e show ?thesis by blast
qed

text \<open>
  C7, as amended. A line on which \<open>JSON.parse\<close> throws changes nothing but the console:
  the pending requests, the promises and the timers are as before. The line is logged
  unless it is blank; a blank line is dropped without a log entry.
\<close>

theorem unparseable_line_discarded:
  assumes "JSON_parse line = None"
  shows "onLine JSON_parse line st
           = Inr (st\<lparr>console := (if trim line = [] then console st
                                   else console st @ [LogParseFailure line])\<rparr>)"
  using assms by (simp add: onLine_def)

lemma trim_brace: "trim ''{oops'' = ''{oops''"
  by code_simp

theorem unparseable_line_discarded_witness:
  "parseFails ''{oops'' = None
   \<and> onLine parseFails ''{oops'' threePending
       = Inr (threePending\<lparr>console := [LogParseFailure ''{oops'']\<rparr>)"
proof -
  have h: "parseFails ''{oops'' = None" by (simp add: parseFails_def)
  have c: "console threePending = []"
    by (simp add: threePending_def bridge_simps)
  show ?thesis
    using h c unparseable_line_discarded [of parseFails "''{oops''" threePending]
    by (simp add: trim_brace)
qed

text \<open>
  C7 as stated fails for the empty line: \<open>JSON.parse\<close> throws on it, and the listener
  returns at its first test without logging anything.
\<close>

theorem blank_line_not_logged:
  "parseFails [] = None
   \<and> onLine parseFails [] threePending = Inr threePending
   \<and> console threePending = []"
  by (simp add: parseFails_def onLine_def trim_def threePending_def bridge_simps)

end
